theory Spec2Isabelle
  imports
    Main
    "HOL-Library.Char_ord"
    "HOL-Library.List_Lexorder"
    "HOL-Library.Product_Lexorder"
    "HOL-Library.Sublist"
    "HOL-Library.Multiset"
begin

section \<open>Strings and regular expressions of \<^verbatim>\<open>export_service.py\<close>\<close>

text \<open>
  A Python \<^verbatim>\<open>str\<close> is modelled as a \<^typ>\<open>string\<close>; a \<^typ>\<open>char\<close> stands for the code
  point of the same number, so the model covers the code points below 256. The character
  classes below are Python's, restricted to that range.
\<close>

definition isspace :: "char \<Rightarrow> bool" where
  \<comment> \<open>\<^verbatim>\<open>str.isspace\<close>: TAB..CR, FS..US, SPACE, NEL and NBSP.\<close>
  "isspace c = (of_char c \<in> {9, 10, 11, 12, 13, 28, 29, 30, 31, 32, 133, 160 :: nat})"

definition lstrip :: "string \<Rightarrow> string" where
  "lstrip s = dropWhile isspace s"

definition rstrip :: "string \<Rightarrow> string" where
  "rstrip s = rev (dropWhile isspace (rev s))"

definition strip :: "string \<Rightarrow> string" where
  "strip s = lstrip (rstrip s)"

definition isdigit_re :: "char \<Rightarrow> bool" where
  \<comment> \<open>\<^verbatim>\<open>\d\<close>: the decimal digits; below 256 these are \<^verbatim>\<open>0\<close>..\<^verbatim>\<open>9\<close>.\<close>
  "isdigit_re c = (48 \<le> (of_char c :: nat) \<and> (of_char c :: nat) \<le> 57)"

definition vps_id_char :: "char \<Rightarrow> bool" where
  \<comment> \<open>The class \<^verbatim>\<open>[A-Za-z0-9_-]\<close>.\<close>
  "vps_id_char c =
     (let n = (of_char c :: nat)
      in (65 \<le> n \<and> n \<le> 90) \<or> (97 \<le> n \<and> n \<le> 122) \<or> (48 \<le> n \<and> n \<le> 57)
         \<or> n = 95 \<or> n = 45)"

definition before_dollar :: "string \<Rightarrow> string" where
  \<comment> \<open>Without \<^verbatim>\<open>re.MULTILINE\<close>, \<^verbatim>\<open>$\<close> matches at the end of the string and also just
      before a newline that ends the string: the text a pattern \<^verbatim>\<open>^...$\<close> has to cover.\<close>
  "before_dollar s = (if s \<noteq> [] \<and> last s = CHR 0x0A then butlast s else s)"

definition YEAR_RE_match :: "string \<Rightarrow> bool" where
  \<comment> \<open>\<^verbatim>\<open>YEAR_RE.match(s)\<close> is not \<^verbatim>\<open>None\<close>, for \<^verbatim>\<open>^\d{4}$\<close>.\<close>
  "YEAR_RE_match s = (length (before_dollar s) = 4 \<and> list_all isdigit_re (before_dollar s))"

definition VPS_ID_RE_match :: "string \<Rightarrow> bool" where
  \<comment> \<open>\<^verbatim>\<open>VPS_ID_RE.match(s)\<close> is not \<^verbatim>\<open>None\<close>, for \<^verbatim>\<open>^[A-Za-z0-9_-]{8,}$\<close>.\<close>
  "VPS_ID_RE_match s =
     (8 \<le> length (before_dollar s) \<and> list_all vps_id_char (before_dollar s))"

definition is_source_id :: "string \<Rightarrow> bool" where
  \<comment> \<open>The source-identifier pattern in the specification's words: only letters, digits,
      underscore and hyphen, and at least 8 of them.\<close>
  "is_source_id s = (8 \<le> length s \<and> list_all vps_id_char s)"

fun join :: "string \<Rightarrow> string list \<Rightarrow> string" where
  \<comment> \<open>\<^verbatim>\<open>sep.join(xs)\<close>\<close>
  "join sep [] = []"
| "join sep [x] = x"
| "join sep (x # y # ys) = x @ sep @ join sep (y # ys)"

section \<open>Exceptions as values\<close>

datatype path = Path string | Slash path string

datatype dv_message =
    Missing_template_CSV path
  | Template_CSV_has_no_header_row
  | Missing_vpsdb_json path
  | vpsdb_json_expected_to_be_a_JSON_array

datatype error =
    DataValidationError dv_message
  | IndexError
  | ValueError

definition rbind :: "error + 'a \<Rightarrow> ('a \<Rightarrow> error + 'b) \<Rightarrow> error + 'b" where
  "rbind m f = (case m of Inl e \<Rightarrow> Inl e | Inr x \<Rightarrow> f x)"

definition index :: "'a list \<Rightarrow> nat \<Rightarrow> error + 'a" where
  \<comment> \<open>\<^verbatim>\<open>xs[i]\<close> for a literal \<^verbatim>\<open>i\<close> that is not negative\<close>
  "index xs i = (if i < length xs then Inr (xs ! i) else Inl IndexError)"

definition index_last :: "'a list \<Rightarrow> error + 'a" where
  \<comment> \<open>\<^verbatim>\<open>xs[-1]\<close>\<close>
  "index_last xs = (if xs = [] then Inl IndexError else Inr (last xs))"

definition assign :: "'a list \<Rightarrow> nat \<Rightarrow> 'a \<Rightarrow> error + 'a list" where
  \<comment> \<open>\<^verbatim>\<open>xs[i] = v\<close>\<close>
  "assign xs i v = (if i < length xs then Inr (xs[i := v]) else Inl IndexError)"

fun index_of :: "'a list \<Rightarrow> 'a \<Rightarrow> error + nat" where
  \<comment> \<open>\<^verbatim>\<open>xs.index(x)\<close>\<close>
  "index_of [] x = Inl ValueError"
| "index_of (y # ys) x = (if y = x then Inr 0 else rbind (index_of ys x) (\<lambda>i. Inr (Suc i)))"

fun traverse :: "('a \<Rightarrow> error + 'b) \<Rightarrow> 'a list \<Rightarrow> error + 'b list" where
  \<comment> \<open>a loop or comprehension that calls \<^verbatim>\<open>f\<close> on each element in order and stops at
      the first exception\<close>
  "traverse f [] = Inr []"
| "traverse f (x # xs) = rbind (f x) (\<lambda>y. rbind (traverse f xs) (\<lambda>ys. Inr (y # ys)))"

definition del :: "'a list \<Rightarrow> nat \<Rightarrow> error + 'a list" where
  \<comment> \<open>\<^verbatim>\<open>del xs[i]\<close>\<close>
  "del xs i = (if i < length xs then Inr (take i xs @ drop (Suc i) xs) else Inl IndexError)"

section \<open>Row Repair\<close>

definition BASE_COLUMNS :: "string list" where
  "BASE_COLUMNS =
     [''GameFileName'', ''GameName'', ''Manufact'', ''GameYear'', ''NumPlayers'', ''GameType'',
      ''Category'', ''GameTheme'', ''WebLinkURL'', ''IPDBNum'', ''AltRunMode'', ''DesignedBy'',
      ''Author'', ''GAMEVER'', ''Rom'', ''Tags'', ''VPS-ID'']"

definition OUT_COLUMNS :: "string list" where
  "OUT_COLUMNS =
     [''GameFileName'', ''GameName'', ''Manufact'', ''GameYear'', ''NumPlayers'', ''GameType'',
      ''Category'', ''GameTheme'', ''WebLinkURL'', ''WebLink2URL'', ''IPDBNum'', ''AltRunMode'',
      ''DesignedBy'', ''Author'', ''GAMEVER'', ''Rom'', ''Tags'', ''VPS-ID'', ''WebGameID'',
      ''MasterID'']"

definition case_A :: "string list \<Rightarrow> error + string list" where
  \<comment> \<open>Case A: 18 columns because Manufact was split at a comma, and year shifted.\<close>
  "case_A row =
     (if length row = length BASE_COLUMNS + 1 then
        rbind (index row 3) (\<lambda>r3.
          if YEAR_RE_match (strip r3) then Inr row
          else rbind (index row 4) (\<lambda>r4.
            if YEAR_RE_match (strip r4) then
              rbind (index row 2) (\<lambda>r2.
              rbind (index row 3) (\<lambda>r3.
              rbind (assign row 2 (rstrip r2 @ '', '' @ lstrip r3)) (\<lambda>row.
              del row 3)))
            else Inr row))
      else Inr row)"

definition append_token :: "string \<Rightarrow> string \<Rightarrow> string" where
  \<comment> \<open>\<^verbatim>\<open>(shifted + " " + tok).strip() if shifted else tok\<close>\<close>
  "append_token shifted tok = (if shifted \<noteq> [] then strip (shifted @ '' '' @ tok) else tok)"

fun fold_extras :: "string \<Rightarrow> string list \<Rightarrow> string" where
  \<comment> \<open>the loop \<^verbatim>\<open>for tok in extras[:-1]\<close>, threading \<^verbatim>\<open>shifted\<close>\<close>
  "fold_extras shifted [] = shifted"
| "fold_extras shifted (tok # toks) =
     fold_extras (if strip tok \<noteq> [] then append_token shifted (strip tok) else shifted) toks"

definition case_B :: "string list \<Rightarrow> error + string list option" where
  \<comment> \<open>Case B: more than expected columns: fold extras into Tags and keep last as VPS-ID.
      \<^const>\<open>None\<close> is the \<^verbatim>\<open>return None\<close> of the \<^verbatim>\<open>else\<close> branch.\<close>
  "case_B row0 =
     (if length row0 > length BASE_COLUMNS then
        (let extras = drop (length BASE_COLUMNS) row0;
             row = take (length BASE_COLUMNS) row0
         in rbind (index_last extras) (\<lambda>e.
              let cand = strip e in
              if VPS_ID_RE_match cand then
                rbind (index row 15) (\<lambda>r15.
                rbind (index row 16) (\<lambda>r16.
                  let shifted = strip r15;
                      shifted = (if strip r16 \<noteq> [] \<and> \<not> VPS_ID_RE_match (strip r16)
                                 then append_token shifted (strip r16) else shifted);
                      shifted = fold_extras shifted (butlast extras)
                  in rbind (assign row 15 shifted) (\<lambda>row.
                     rbind (assign row 16 cand) (\<lambda>row. Inr (Some row)))))
              else Inr None))
      else Inr (Some row0))"

definition repair_template_row :: "string list \<Rightarrow> error + string list option" where
  \<comment> \<open>\<^verbatim>\<open>_repair_template_row\<close>; \<^const>\<open>None\<close> is Python's \<^verbatim>\<open>None\<close>, \<^const>\<open>Inl\<close> a raised exception.\<close>
  "repair_template_row row =
     (if length row < length BASE_COLUMNS then Inr None
      else
        rbind (case_A row) (\<lambda>row.
        rbind (case_B row) (\<lambda>b.
          case b of
            None \<Rightarrow> Inr None
          | Some row \<Rightarrow>
              if length row \<noteq> length BASE_COLUMNS then Inr None
              else rbind (index row 16) (\<lambda>r16.
                if \<not> VPS_ID_RE_match (strip r16) then Inr None else Inr (Some row)))))"

definition repair_all :: "string list list \<Rightarrow> error + string list list" where
  \<comment> \<open>the loop of \<^verbatim>\<open>_read_template_rows\<close>: \<^verbatim>\<open>if fixed: repaired.append(fixed)\<close>\<close>
  "repair_all rows =
     rbind (traverse repair_template_row rows) (\<lambda>fixed.
       Inr (concat (map (\<lambda>f. case f of None \<Rightarrow> [] | Some r \<Rightarrow> if r \<noteq> [] then [r] else []) fixed)))"

definition read_template_rows :: "path \<Rightarrow> string list list option \<Rightarrow> error + string list list" where
  \<comment> \<open>\<^verbatim>\<open>_read_template_rows\<close>. The second argument is the file at \<^verbatim>\<open>csv_path\<close>: \<^const>\<open>None\<close>
      when it does not exist, else the rows \<^verbatim>\<open>csv.reader\<close> yields from it.\<close>
  "read_template_rows csv_path file =
     (case file of
        None \<Rightarrow> Inl (DataValidationError (Missing_template_CSV csv_path))
      | Some [] \<Rightarrow> Inl (DataValidationError Template_CSV_has_no_header_row)
      | Some (header # rows) \<Rightarrow>
          if header = [] then Inl (DataValidationError Template_CSV_has_no_header_row)
          else repair_all rows)"

section \<open>Metadata Indexer\<close>

text \<open>
  The metadata database is JSON. The model gives every key the code reads the JSON types
  the code distinguishes by \<^verbatim>\<open>isinstance\<close>, \<^verbatim>\<open>is None\<close> or truthiness; \<^const>\<open>None\<close> is an
  absent key or \<^verbatim>\<open>null\<close> (for \<^verbatim>\<open>designers\<close> also a value that is not a list). A JSON number
  \<^verbatim>\<open>x\<close> is given by \<^verbatim>\<open>int(x)\<close>, the only thing the code computes from it.
\<close>

datatype jscalar = JNum int | JStr string

datatype jtheme = ThemeList "string list" | ThemeStr string

datatype jauthors = AuthorsStr string | AuthorsList "string option list"

datatype game_ref = GameRef (ref_id: "string option")

record table_file =
  t_id :: "string option"
  t_game :: "game_ref option"
  t_edition :: "string option"
  t_gameFileName :: "string option"
  t_authors :: "jauthors option"
  t_version :: "string option"
  t_features :: "string option list option"
  t_createdAt :: "jscalar option"

record game =
  g_id :: "string option"
  g_name :: "string option"
  g_manufacturer :: "string option"
  g_year :: "jscalar option"
  g_players :: "jscalar option"
  g_type :: "string option"
  g_theme :: "jtheme option"
  g_designers :: "string list option"
  g_ipdbUrl :: "string option"
  g_tableFiles :: "table_file option list option"

text \<open>
  In a list of games or of table files, \<^const>\<open>None\<close> is an element that is not a JSON object
  (the \<^verbatim>\<open>isinstance(_, dict)\<close> tests skip it). In \<^const>\<open>AuthorsList\<close> and \<^const>\<open>t_features\<close>,
  \<^const>\<open>None\<close> is an element that is not a string.
\<close>

record TableCtx =
  game_id :: string
  game_name :: string
  manufacturer :: string
  year :: string
  players :: string
  game_type :: string
  theme :: string
  designers :: string
  ipdb_url :: string
  ipdb_num :: string
  authors :: "string list"
  version :: string
  tags_list :: "string list"
  edition :: string
  created_at :: int
  tf_index :: int
  tf_gamefile_name :: string

definition or_empty :: "string option \<Rightarrow> string" where
  \<comment> \<open>\<^verbatim>\<open>x or ""\<close> for \<^verbatim>\<open>x\<close> a string or \<^verbatim>\<open>None\<close>\<close>
  "or_empty x = (case x of None \<Rightarrow> [] | Some s \<Rightarrow> s)"

definition lower_char :: "char \<Rightarrow> char" where
  "lower_char c =
     (let n = (of_char c :: nat)
      in if (65 \<le> n \<and> n \<le> 90) \<or> (192 \<le> n \<and> n \<le> 222 \<and> n \<noteq> 215) then char_of (n + 32) else c)"

definition lower :: "string \<Rightarrow> string" where
  \<comment> \<open>\<^verbatim>\<open>str.lower\<close>\<close>
  "lower s = map lower_char s"

fun py_in :: "string \<Rightarrow> string \<Rightarrow> bool" where
  \<comment> \<open>\<^verbatim>\<open>sub in s\<close>\<close>
  "py_in sub [] = (sub = [])"
| "py_in sub (c # s) = (prefix sub (c # s) \<or> py_in sub s)"

fun str_nat :: "nat \<Rightarrow> string" where
  "str_nat n = (if n < 10 then [char_of (48 + n)] else str_nat (n div 10) @ [char_of (48 + n mod 10)])"

declare str_nat.simps [simp del]

definition str_int :: "int \<Rightarrow> string" where
  \<comment> \<open>\<^verbatim>\<open>str(i)\<close> for an \<^verbatim>\<open>int\<close>\<close>
  "str_int i = (if i < 0 then CHR ''-'' # str_nat (nat (- i)) else str_nat (nat i))"

definition norm_weblink :: "string \<Rightarrow> string" where
  \<comment> \<open>\<^verbatim>\<open>_norm_weblink\<close>: keep only IPDB links; drop placeholders and non-IPDB sources.\<close>
  "norm_weblink url =
     (if url = [] then []
      else let u = strip url in
        if lower u \<in> set [''not available'', ''n/a'', ''na'', ''none''] then []
        else if \<not> py_in ''ipdb.org'' (lower u) then []
        else u)"

fun search_ipdb_num :: "string \<Rightarrow> string" where
  \<comment> \<open>\<^verbatim>\<open>re.search(r"(?:id=|machine\.cgi\?id=)(\d+)", s)\<close>, then \<^verbatim>\<open>group(1)\<close>, or \<^verbatim>\<open>""\<close> without
      a match. A match of the second alternative ends in a match of the first one, and no
      \<^verbatim>\<open>id=\<close> starts earlier inside it, so group 1 is the run of digits after the leftmost
      \<^verbatim>\<open>id=\<close> that a digit follows.\<close>
  "search_ipdb_num [] = []"
| "search_ipdb_num (c # s) =
     (if prefix ''id='' (c # s) \<and> takeWhile isdigit_re (drop 3 (c # s)) \<noteq> []
      then takeWhile isdigit_re (drop 3 (c # s))
      else search_ipdb_num s)"

definition parse_ipdb_num :: "string \<Rightarrow> string" where
  \<comment> \<open>\<^verbatim>\<open>_parse_ipdb_num\<close>\<close>
  "parse_ipdb_num url = (if url = [] then [] else search_ipdb_num url)"

definition excluded_feature :: "string \<Rightarrow> bool" where
  \<comment> \<open>\<^verbatim>\<open>_excluded_feature\<close>\<close>
  "excluded_feature feature =
     (let f = strip feature in prefix ''incl.'' (lower f) \<or> f = ''no ROM'')"

definition WEBLINK2_BASE :: string where
  "WEBLINK2_BASE = ''https://virtualpinballspreadsheet.github.io/tables''"

definition weblink2 :: "string \<Rightarrow> string \<Rightarrow> string" where
  \<comment> \<open>\<^verbatim>\<open>_weblink2\<close>\<close>
  "weblink2 master_id vps_id =
     (if master_id = [] \<or> vps_id = [] then []
      else WEBLINK2_BASE @ ''?game='' @ master_id @ ''&fileType=tables&fileId='' @ vps_id)"

definition sanitize_filename_part :: "string \<Rightarrow> string" where
  \<comment> \<open>\<^verbatim>\<open>s.replace("/", "_")\<close>\<close>
  "sanitize_filename_part s = map (\<lambda>c. if c = CHR ''/'' then CHR ''_'' else c) s"

definition coerce_scalar :: "jscalar option \<Rightarrow> string" where
  \<comment> \<open>\<^verbatim>\<open>year_s\<close> and \<^verbatim>\<open>players_s\<close>: \<^verbatim>\<open>str(int(x))\<close> for a number, \<^verbatim>\<open>str(x)\<close> for a string,
      \<^verbatim>\<open>""\<close> for \<^verbatim>\<open>None\<close>\<close>
  "coerce_scalar x = (case x of None \<Rightarrow> [] | Some (JNum n) \<Rightarrow> str_int n | Some (JStr s) \<Rightarrow> s)"

definition base_name_of :: "game \<Rightarrow> string" where
  "base_name_of g = or_empty (g_name g)"

definition manuf_of :: "game \<Rightarrow> string" where
  "manuf_of g = or_empty (g_manufacturer g)"

definition year_s_of :: "game \<Rightarrow> string" where
  "year_s_of g = coerce_scalar (g_year g)"

definition edition_of :: "table_file \<Rightarrow> string" where
  "edition_of tf = or_empty (t_edition tf)"

definition name_with_ed_of :: "game \<Rightarrow> table_file \<Rightarrow> string" where
  "name_with_ed_of g tf =
     (if edition_of tf \<noteq> [] \<and> \<not> py_in (lower (edition_of tf)) (lower (base_name_of g))
      then base_name_of g @ '' - '' @ edition_of tf
      else base_name_of g)"

definition game_name_of :: "game \<Rightarrow> table_file \<Rightarrow> string" where
  "game_name_of g tf =
     (if manuf_of g \<noteq> [] \<and> year_s_of g \<noteq> []
      then name_with_ed_of g tf @ '' ('' @ manuf_of g @ '' '' @ year_s_of g @ '')''
      else name_with_ed_of g tf)"

definition authors_of :: "table_file \<Rightarrow> string list" where
  "authors_of tf =
     (let authors = (case t_authors tf of
                       None \<Rightarrow> []
                     | Some (AuthorsStr a) \<Rightarrow> if a = [] then [] else [Some a]
                     | Some (AuthorsList as) \<Rightarrow> as)
      in concat (map (\<lambda>a. case a of None \<Rightarrow> [] | Some s \<Rightarrow> [s]) authors))"

definition tags_list_of :: "table_file \<Rightarrow> string list" where
  "tags_list_of tf =
     (let feats = (case t_features tf of None \<Rightarrow> [] | Some fs \<Rightarrow> fs)
      in concat (map (\<lambda>f. case f of
                             None \<Rightarrow> []
                           | Some s \<Rightarrow> if strip s \<noteq> [] \<and> \<not> excluded_feature s then [s] else [])
                     feats))"

definition created_at_of :: "table_file \<Rightarrow> int" where
  "created_at_of tf = (case t_createdAt tf of Some (JNum n) \<Rightarrow> n | _ \<Rightarrow> 0)"

definition game_id_of :: "game \<Rightarrow> table_file \<Rightarrow> string" where
  \<comment> \<open>\<^verbatim>\<open>(tf.get("game") or {}).get("id") or g.get("id") or ""\<close>\<close>
  "game_id_of g tf =
     (let own = (case t_game tf of None \<Rightarrow> [] | Some r \<Rightarrow> or_empty (ref_id r))
      in if own \<noteq> [] then own else or_empty (g_id g))"

definition table_files_of :: "game \<Rightarrow> table_file option list" where
  \<comment> \<open>\<^verbatim>\<open>g.get("tableFiles") or []\<close>\<close>
  "table_files_of g = (case g_tableFiles g of None \<Rightarrow> [] | Some tfs \<Rightarrow> tfs)"

definition ctx_of :: "game \<Rightarrow> nat \<Rightarrow> table_file \<Rightarrow> TableCtx" where
  \<comment> \<open>the \<^verbatim>\<open>TableCtx\<close> the inner loop of \<^verbatim>\<open>_build_indexes\<close> builds for table file \<^verbatim>\<open>tf\<close>
      at position \<^verbatim>\<open>idx\<close> of game \<^verbatim>\<open>g\<close>\<close>
  "ctx_of g idx tf =
     (let ipdb = norm_weblink (or_empty (g_ipdbUrl g))
      in \<lparr> game_id = game_id_of g tf,
           game_name = game_name_of g tf,
           manufacturer = manuf_of g,
           year = year_s_of g,
           players = coerce_scalar (g_players g),
           game_type = or_empty (g_type g),
           theme = (case g_theme g of
                      None \<Rightarrow> [] | Some (ThemeList ts) \<Rightarrow> join '', '' ts | Some (ThemeStr s) \<Rightarrow> s),
           designers = (case g_designers g of None \<Rightarrow> [] | Some ds \<Rightarrow> join '', '' ds),
           ipdb_url = ipdb,
           ipdb_num = parse_ipdb_num ipdb,
           authors = authors_of tf,
           version = or_empty (t_version tf),
           tags_list = tags_list_of tf,
           edition = edition_of tf,
           created_at = created_at_of tf,
           tf_index = int idx,
           tf_gamefile_name = or_empty (t_gameFileName tf) \<rparr>)"

fun index_table_files ::
  "game \<Rightarrow> nat \<Rightarrow> table_file option list \<Rightarrow> (string \<rightharpoonup> TableCtx) \<Rightarrow> (string \<rightharpoonup> TableCtx)" where
  \<comment> \<open>the loop \<^verbatim>\<open>for idx, tf in enumerate(tfs)\<close>\<close>
  "index_table_files g idx [] out = out"
| "index_table_files g idx (tf # tfs) out =
     index_table_files g (Suc idx) tfs
       (case tf of
          None \<Rightarrow> out
        | Some tf \<Rightarrow>
            (case t_id tf of
               None \<Rightarrow> out
             | Some vid \<Rightarrow> if vid = [] then out else out(vid \<mapsto> ctx_of g idx tf)))"

fun index_games :: "game option list \<Rightarrow> (string \<rightharpoonup> TableCtx) \<Rightarrow> (string \<rightharpoonup> TableCtx)" where
  \<comment> \<open>the loop \<^verbatim>\<open>for g in vpsdb\<close>\<close>
  "index_games [] out = out"
| "index_games (g # gs) out =
     index_games gs
       (case g of
          None \<Rightarrow> out
        | Some g \<Rightarrow> index_table_files g 0 (table_files_of g) out)"

definition build_indexes :: "game option list \<Rightarrow> (string \<rightharpoonup> TableCtx)" where
  \<comment> \<open>\<^verbatim>\<open>_build_indexes\<close>: map \<^verbatim>\<open>tableFiles[].id\<close> to its \<^verbatim>\<open>TableCtx\<close>\<close>
  "build_indexes vpsdb = index_games vpsdb Map.empty"

fun master_table_files ::
  "string \<Rightarrow> table_file option list \<Rightarrow> (string \<rightharpoonup> string) \<Rightarrow> (string \<rightharpoonup> string)" where
  "master_table_files gid [] out = out"
| "master_table_files gid (tf # tfs) out =
     master_table_files gid tfs
       (case tf of
          None \<Rightarrow> out
        | Some tf \<Rightarrow>
            (case t_id tf of
               None \<Rightarrow> out
             | Some vid \<Rightarrow>
                 if vid = [] then out
                 else
                   (let own = (case t_game tf of None \<Rightarrow> [] | Some r \<Rightarrow> or_empty (ref_id r))
                    in out(vid \<mapsto> (if own \<noteq> [] then own else gid)))))"

fun master_games :: "game option list \<Rightarrow> (string \<rightharpoonup> string) \<Rightarrow> (string \<rightharpoonup> string)" where
  "master_games [] out = out"
| "master_games (g # gs) out =
     master_games gs
       (case g of
          None \<Rightarrow> out
        | Some g \<Rightarrow> master_table_files (or_empty (g_id g)) (table_files_of g) out)"

definition build_master_map :: "game option list \<Rightarrow> (string \<rightharpoonup> string)" where
  \<comment> \<open>\<^verbatim>\<open>_build_master_map\<close>: map \<^verbatim>\<open>tableFiles[].id\<close> to \<^verbatim>\<open>game.id\<close> (MasterID)\<close>
  "build_master_map vpsdb = master_games vpsdb Map.empty"

section \<open>Field Enricher and Ordering\<close>

definition build_gamefile_name :: "TableCtx \<Rightarrow> string" where
  \<comment> \<open>\<^verbatim>\<open>_build_gamefile_name\<close>\<close>
  "build_gamefile_name ctx =
     (if tf_gamefile_name ctx \<noteq> [] then tf_gamefile_name ctx
      else
        (let base = sanitize_filename_part (game_name ctx);
             author_part = (case authors ctx of [] \<Rightarrow> [] | a # _ \<Rightarrow> a);
             s = base;
             s = (if author_part \<noteq> [] then s @ '' '' @ author_part @ '' '' @ version ctx
                  else if version ctx \<noteq> [] then s @ '' '' @ version ctx
                  else s);
             s = (if ''MOD'' \<in> set (tags_list ctx) then s @ '' MOD'' else s);
             s = (if ''VR'' \<in> set (tags_list ctx) then s @ '' VR'' else s)
         in s))"

fun split_head :: "string \<Rightarrow> string \<Rightarrow> string" where
  \<comment> \<open>\<^verbatim>\<open>s.split(sep, 1)[0]\<close> for a separator that is not empty: the text before the first
      occurrence of \<^verbatim>\<open>sep\<close>, or all of \<^verbatim>\<open>s\<close> when there is none\<close>
  "split_head sep [] = []"
| "split_head sep (c # s) = (if prefix sep (c # s) then [] else c # split_head sep s)"

type_synonym key_tuple = "string \<times> int \<times> int \<times> int"

definition sort_key_for_ctx :: "TableCtx \<Rightarrow> key_tuple" where
  \<comment> \<open>\<^verbatim>\<open>_sort_key_for_ctx\<close>: name prefix, createdAt desc, edition empty first, file order.
      Python compares the tuples lexicographically and the strings by code point, which is
      the order of \<^typ>\<open>key_tuple\<close>.\<close>
  "sort_key_for_ctx ctx =
     (split_head '' ('' (game_name ctx), - created_at ctx,
      (if edition ctx = [] then 0 else 1), tf_index ctx)"

definition key :: "(string \<rightharpoonup> TableCtx) \<Rightarrow> string list \<Rightarrow> error + key_tuple" where
  \<comment> \<open>the local function \<^verbatim>\<open>key\<close> of \<^verbatim>\<open>_generate_rows\<close>\<close>
  "key ctx_by_vpsid row =
     rbind (index_of OUT_COLUMNS ''VPS-ID'') (\<lambda>i.
     rbind (index row i) (\<lambda>vid.
       case ctx_by_vpsid vid of
         None \<Rightarrow> Inr ([], 0, 0, 9999)
       | Some ctx \<Rightarrow> Inr (sort_key_for_ctx ctx)))"

definition sorted_py :: "('a \<Rightarrow> error + 'k::linorder) \<Rightarrow> 'a list \<Rightarrow> error + 'a list" where
  \<comment> \<open>\<^verbatim>\<open>sorted(xs, key=k)\<close>: the keys are computed once, in order, and the sort is stable\<close>
  "sorted_py k xs =
     rbind (traverse k xs) (\<lambda>ks. Inr (map snd (sort_key fst (zip ks xs))))"

definition dict_get :: "('k \<rightharpoonup> string) \<Rightarrow> 'k \<Rightarrow> string" where
  \<comment> \<open>\<^verbatim>\<open>out.get(c, "")\<close>\<close>
  "dict_get out c = (case out c of None \<Rightarrow> [] | Some v \<Rightarrow> v)"

definition assemble :: "(string \<rightharpoonup> string) \<Rightarrow> string \<Rightarrow> string \<Rightarrow> string \<Rightarrow> error + string list" where
  \<comment> \<open>the last lines of both branches of the loop body: \<^verbatim>\<open>base_out\<close>, \<^verbatim>\<open>wl_idx\<close>,
      \<^verbatim>\<open>enriched\<close>\<close>
  "assemble out wl2 vps_id master =
     (let base_out = map (dict_get out) BASE_COLUMNS in
      rbind (index_of BASE_COLUMNS ''WebLinkURL'') (\<lambda>wl_idx.
        Inr (take (wl_idx + 1) base_out @ [wl2] @ drop (wl_idx + 1) base_out @ [vps_id, master])))"

definition enrich ::
  "(string \<rightharpoonup> TableCtx) \<Rightarrow> (string \<rightharpoonup> string) \<Rightarrow> string list \<Rightarrow> error + string list" where
  \<comment> \<open>the body of the loop \<^verbatim>\<open>for trow in template_rows\<close> of \<^verbatim>\<open>_generate_rows\<close>; its
      result is the row appended to \<^verbatim>\<open>out_rows\<close>. \<^verbatim>\<open>dict(zip(BASE_COLUMNS, trow))\<close> is
      \<^term>\<open>Map.empty(BASE_COLUMNS [\<mapsto>] trow)\<close>.\<close>
  "enrich ctx_by_vpsid master_by_vpsid trow =
     rbind (index_of BASE_COLUMNS ''VPS-ID'') (\<lambda>i.
     rbind (index trow i) (\<lambda>vps_id.
       case ctx_by_vpsid vps_id of
         None \<Rightarrow>
           (let master = [];
                wl2 = [];
                out = Map.empty(BASE_COLUMNS [\<mapsto>] trow)
            in assemble out wl2 vps_id master)
       | Some ctx \<Rightarrow>
           (let master = (case master_by_vpsid vps_id of None \<Rightarrow> game_id ctx | Some m \<Rightarrow> m);
                wl2 = (if master \<noteq> [] then weblink2 master vps_id else []);
                out = Map.empty(BASE_COLUMNS [\<mapsto>] trow);
                out = out(''GameName'' \<mapsto> game_name ctx);
                out = out(''Manufact'' \<mapsto> manufacturer ctx);
                out = out(''GameYear'' \<mapsto> year ctx);
                out = out(''NumPlayers'' \<mapsto> players ctx);
                out = out(''GameType'' \<mapsto> game_type ctx);
                out = out(''GameTheme'' \<mapsto> theme ctx);
                out = out(''WebLinkURL'' \<mapsto> ipdb_url ctx);
                out = out(''IPDBNum'' \<mapsto> ipdb_num ctx);
                out = out(''DesignedBy'' \<mapsto> designers ctx);
                out = out(''Author'' \<mapsto> join '', '' (authors ctx));
                out = out(''GAMEVER'' \<mapsto> version ctx);
                out = out(''Tags'' \<mapsto> join '', '' (tags_list ctx));
                out = out(''GameFileName'' \<mapsto> build_gamefile_name ctx)
            in assemble out wl2 vps_id master)))"

definition generate_rows ::
  "string list list \<Rightarrow> (string \<rightharpoonup> TableCtx) \<Rightarrow> (string \<rightharpoonup> string) \<Rightarrow> error + string list list" where
  \<comment> \<open>\<^verbatim>\<open>_generate_rows\<close>: \<^verbatim>\<open>data\<close> is \<^verbatim>\<open>out_rows[1:]\<close>, the rows the loop appended after
      the header\<close>
  "generate_rows template_rows ctx_by_vpsid master_by_vpsid =
     rbind (traverse (enrich ctx_by_vpsid master_by_vpsid) template_rows) (\<lambda>data.
     rbind (sorted_py (key ctx_by_vpsid) data) (\<lambda>sorted_data.
       Inr (OUT_COLUMNS # sorted_data)))"

section \<open>Merge Engine and files\<close>

datatype json_doc = JArray "game option list" | JOther

definition read_vpsdb :: "path \<Rightarrow> json_doc option \<Rightarrow> error + game option list" where
  \<comment> \<open>\<^verbatim>\<open>_read_vpsdb\<close>. The second argument is the file at \<^verbatim>\<open>vpsdb_path\<close>: \<^const>\<open>None\<close> when it
      does not exist, else the document \<^verbatim>\<open>json.load\<close> returns, \<^const>\<open>JOther\<close> when that is
      not a list.\<close>
  "read_vpsdb vpsdb_path file =
     (case file of
        None \<Rightarrow> Inl (DataValidationError (Missing_vpsdb_json vpsdb_path))
      | Some JOther \<Rightarrow> Inl (DataValidationError vpsdb_json_expected_to_be_a_JSON_array)
      | Some (JArray obj) \<Rightarrow> Inr obj)"

text \<open>
  The files a run touches: the two cached inputs under \<^verbatim>\<open>data_dir\<close> and the destination
  \<^verbatim>\<open>output_dir / output_filename\<close>, taken to be three different files. A file that exists
  is given by its decoded content (the rows of a CSV file, the document of a JSON file);
  failures of decoding are outside the model.
\<close>

record files =
  puplookup_csv :: "string list list option"
  vpsdb_json :: "json_doc option"
  output_csv :: "string list list option"

definition write_csv_trace :: "files \<Rightarrow> string list list \<Rightarrow> files list" where
  \<comment> \<open>\<^verbatim>\<open>_write_csv\<close>, as the states of the files it passes through: \<^verbatim>\<open>path.open("w")\<close>
      creates the destination or truncates it in place; \<^verbatim>\<open>writerows\<close> and the end of the
      \<^verbatim>\<open>with\<close> block leave all rows in it. (While the rows are written, a flush of the buffer
      can make a prefix of the text visible too; the trace lists the states every run
      has.)\<close>
  "write_csv_trace fs rows = [fs\<lparr>output_csv := Some []\<rparr>, fs\<lparr>output_csv := Some rows\<rparr>]"

definition write_csv :: "files \<Rightarrow> string list list \<Rightarrow> files" where
  "write_csv fs rows = last (write_csv_trace fs rows)"

definition atomic_write_bytes_trace ::
  "(string \<rightharpoonup> string) \<Rightarrow> string \<Rightarrow> string \<Rightarrow> (string \<rightharpoonup> string) list" where
  \<comment> \<open>\<^verbatim>\<open>atomic_write_bytes\<close> of \<^verbatim>\<open>utils.py\<close>, on a store from path to bytes:
      \<^verbatim>\<open>tmp.write_bytes(data)\<close> creates or truncates the temporary file and fills it, then
      \<^verbatim>\<open>os.replace(tmp, p)\<close> renames it onto the destination in one step\<close>
  "atomic_write_bytes_trace store p data =
     (let tmp = p @ ''.tmp'' in
      [store(tmp \<mapsto> []), store(tmp \<mapsto> data), (store(tmp := None))(p \<mapsto> data)])"

record ExportService =
  data_dir :: path
  output_dir :: path
  output_filename :: string

definition generate_output_csv :: "ExportService \<Rightarrow> files \<Rightarrow> (error + path) \<times> files" where
  \<comment> \<open>\<^verbatim>\<open>ExportService.generate_output_csv\<close>: the result, \<^const>\<open>Inl\<close> for an exception that
      leaves the method, and the files afterwards\<close>
  "generate_output_csv self fs =
     (let template_csv = Slash (data_dir self) ''puplookup.csv'';
          vpsdb_json_path = Slash (data_dir self) ''vpsdb.json''
      in case read_template_rows template_csv (puplookup_csv fs) of
           Inl e \<Rightarrow> (Inl e, fs)
         | Inr template_rows \<Rightarrow>
             (case read_vpsdb vpsdb_json_path (vpsdb_json fs) of
                Inl e \<Rightarrow> (Inl e, fs)
              | Inr vpsdb \<Rightarrow>
                  (let ctx_by_vpsid = build_indexes vpsdb;
                       master_by_vpsid = build_master_map vpsdb
                   in case generate_rows template_rows ctx_by_vpsid master_by_vpsid of
                        Inl e \<Rightarrow> (Inl e, fs)
                      | Inr out_rows \<Rightarrow>
                          (let out_path = Slash (output_dir self) (output_filename self)
                           in (Inr out_path, write_csv fs out_rows)))))"

section \<open>Notions used to state the properties\<close>

definition trimmed :: "string \<Rightarrow> bool" where
  \<comment> \<open>no whitespace at either end\<close>
  "trimmed s = (s = [] \<or> (\<not> isspace (hd s) \<and> \<not> isspace (last s)))"

definition nonempty :: "string \<Rightarrow> bool" where
  "nonempty s = (s \<noteq> [])"

definition folded_tags :: "string list \<Rightarrow> string" where
  \<comment> \<open>what Case B stores in the tags field of a row with extras: the trimmed pieces that
      are not empty, joined by one space\<close>
  "folded_tags row =
     join '' '' (filter nonempty (map strip
       (row ! 15 # (if is_source_id (strip (row ! 16)) then [] else [row ! 16])
        @ butlast (drop 17 row))))"

definition plain_joined_tags :: "string list \<Rightarrow> string" where
  \<comment> \<open>the tags field as the specification words it: the existing tags, the index-16
      content when it is not empty and not an identifier, and the remaining extras, joined
      by spaces as they are\<close>
  "plain_joined_tags row =
     join '' ''
       (row ! 15 # (if row ! 16 \<noteq> [] \<and> \<not> is_source_id (row ! 16) then [row ! 16] else [])
        @ butlast (drop 17 row))"

section \<open>Example inputs\<close>

definition row_ok :: "string list" where
  \<comment> \<open>the lookup row of the specification's end-to-end example\<close>
  "row_ok =
     [''file.vpx'', ''Game'', ''Mfg'', ''2020'', ''4'', ''EM'', ''Cat'', ''Theme'',
      ''ipdb.org?id=5'', '''', '''', ''Designer'', ''Author'', ''1.0'', ''rom'', ''tag1'',
      ''abc12345'']"

definition row_padded_id :: "string list" where
  \<comment> \<open>the same row with a blank before its identifier\<close>
  "row_padded_id =
     [''file.vpx'', ''Game'', ''Mfg'', ''2020'', ''4'', ''EM'', ''Cat'', ''Theme'',
      ''ipdb.org?id=5'', '''', '''', ''Designer'', ''Author'', ''1.0'', ''rom'', ''tag1'',
      '' abc12345'']"

definition row_extras :: "string list" where
  \<comment> \<open>19 fields: two extras, the first with a blank in front\<close>
  "row_extras =
     [''file.vpx'', ''Game'', ''Mfg'', ''2020'', ''4'', ''EM'', ''Cat'', ''Theme'',
      ''ipdb.org?id=5'', '''', '''', ''Designer'', ''Author'', ''1.0'', ''rom'', ''tag1'',
      ''abc12345'', '' x'', ''xyz98765'']"

definition row_extras_repaired :: "string list" where
  "row_extras_repaired =
     [''file.vpx'', ''Game'', ''Mfg'', ''2020'', ''4'', ''EM'', ''Cat'', ''Theme'',
      ''ipdb.org?id=5'', '''', '''', ''Designer'', ''Author'', ''1.0'', ''rom'', ''tag1 x'',
      ''xyz98765'']"

definition row_short :: "string list" where
  "row_short = [''file.vpx'', ''Game'', ''Mfg'']"

definition table_file_empty :: table_file where
  \<comment> \<open>a table file with no key at all\<close>
  "table_file_empty =
     \<lparr> t_id = None, t_game = None, t_edition = None, t_gameFileName = None, t_authors = None,
       t_version = None, t_features = None, t_createdAt = None \<rparr>"

definition game_empty :: game where
  "game_empty =
     \<lparr> g_id = None, g_name = None, g_manufacturer = None, g_year = None, g_players = None,
       g_type = None, g_theme = None, g_designers = None, g_ipdbUrl = None,
       g_tableFiles = None \<rparr>"

definition game_pinball_wizard :: game where
  "game_pinball_wizard = game_empty\<lparr> g_name := Some ''Pinball Wizard'' \<rparr>"

definition table_file_blue :: table_file where
  "table_file_blue = table_file_empty\<lparr> t_id := Some ''blue0001'', t_edition := Some ''Blue'' \<rparr>"

definition table_file_wizard :: table_file where
  "table_file_wizard =
     table_file_empty\<lparr> t_id := Some ''wizard01'', t_edition := Some ''WIZARD'' \<rparr>"

definition table_file_example :: table_file where
  "table_file_example =
     table_file_empty\<lparr> t_id := Some ''abc12345'', t_createdAt := Some (JNum 100) \<rparr>"

definition game_example :: game where
  \<comment> \<open>the metadata entry of the specification's end-to-end example\<close>
  "game_example =
     game_empty\<lparr> g_id := Some ''g1'', g_name := Some ''Game'', g_manufacturer := Some ''Mfg'',
       g_year := Some (JNum 2020),
       g_tableFiles := Some [Some table_file_example] \<rparr>"

definition vpsdb_example :: "game option list" where
  "vpsdb_example = [Some game_example]"

definition row_unknown :: "string list" where
  \<comment> \<open>a well-formed row whose identifier is in no table file of \<^const>\<open>vpsdb_example\<close>\<close>
  "row_unknown =
     [''other.vpx'', ''Zed'', ''Mfg'', ''1999'', ''2'', ''SS'', ''Cat'', ''Theme'',
      ''ipdb.org?id=7'', ''7'', '''', ''Designer'', ''Author'', ''2.0'', ''rom'', ''tag2'',
      ''zzz99999'']"

definition ctx_smith :: TableCtx where
  \<comment> \<open>the context of the specification's file-name example\<close>
  "ctx_smith =
     \<lparr> game_id = ''g1'', game_name = ''Game (X 2020)'', manufacturer = ''X'', year = ''2020'',
       players = '''', game_type = '''', theme = '''', designers = '''', ipdb_url = '''',
       ipdb_num = '''', authors = [''Smith''], version = ''1.2'', tags_list = [''VR''],
       edition = '''', created_at = 0, tf_index = 0, tf_gamefile_name = '''' \<rparr>"

definition ctx_blank_author :: TableCtx where
  \<comment> \<open>as \<^const>\<open>ctx_smith\<close>, but the first author's name is the empty string\<close>
  "ctx_blank_author = ctx_smith\<lparr> authors := ['''', ''Smith''] \<rparr>"

definition claimed_gamefile_name :: "TableCtx \<Rightarrow> string" where
  \<comment> \<open>the file-name rule in the specification's words: the author part is appended
      whenever the author list is not empty\<close>
  "claimed_gamefile_name ctx =
     (if tf_gamefile_name ctx \<noteq> [] then tf_gamefile_name ctx
      else sanitize_filename_part (game_name ctx)
           @ (if authors ctx \<noteq> [] then '' '' @ hd (authors ctx) @ '' '' @ version ctx
              else if version ctx \<noteq> [] then '' '' @ version ctx else [])
           @ (if ''MOD'' \<in> set (tags_list ctx) then '' MOD'' else [])
           @ (if ''VR'' \<in> set (tags_list ctx) then '' VR'' else []))"

definition is_name_prefix :: "string \<Rightarrow> string \<Rightarrow> bool" where
  \<comment> \<open>\<open>p\<close> is \<open>name\<close> truncated before its first \<^verbatim>\<open>" ("\<close>, or all of \<open>name\<close> when \<^verbatim>\<open>" ("\<close> does
      not occur in it\<close>
  "is_name_prefix p name =
     (if sublist '' ('' name
      then (\<exists>rest. name = p @ '' ('' @ rest) \<and> \<not> sublist '' ('' (p @ '' '')
      else p = name)"

definition row_key :: "(string \<rightharpoonup> TableCtx) \<Rightarrow> string list \<Rightarrow> key_tuple" where
  \<comment> \<open>the sort key of an output row, read off its VPS-ID column (index 17)\<close>
  "row_key ctx_by_vpsid row =
     (case ctx_by_vpsid (row ! 17) of
        None \<Rightarrow> ([], 0, 0, 9999)
      | Some ctx \<Rightarrow>
          (split_head '' ('' (game_name ctx), - created_at ctx,
           (if edition ctx = [] then 0 else 1), tf_index ctx))"

definition out_ok :: "string list" where
  \<comment> \<open>the output row for \<^const>\<open>row_ok\<close> joined against \<^const>\<open>vpsdb_example\<close>\<close>
  "out_ok =
     [''Game (Mfg 2020)'', ''Game (Mfg 2020)'', ''Mfg'', ''2020'', '''', '''', ''Cat'', '''', '''',
      ''https://virtualpinballspreadsheet.github.io/tables?game=g1&fileType=tables&fileId=abc12345'',
      '''', '''', '''', '''', '''', ''rom'', '''', ''abc12345'', ''abc12345'', ''g1'']"

definition out_unknown :: "string list" where
  \<comment> \<open>the output row for \<^const>\<open>row_unknown\<close>, which has no context\<close>
  "out_unknown =
     [''other.vpx'', ''Zed'', ''Mfg'', ''1999'', ''2'', ''SS'', ''Cat'', ''Theme'',
      ''ipdb.org?id=7'', '''', ''7'', '''', ''Designer'', ''Author'', ''2.0'', ''rom'', ''tag2'',
      ''zzz99999'', ''zzz99999'', '''']"

definition no_header_row :: "string list list option \<Rightarrow> bool" where
  \<comment> \<open>the lookup file exists but has no header row: it has no row at all, or its first
      row has no field\<close>
  "no_header_row file = (case file of None \<Rightarrow> False | Some [] \<Rightarrow> True | Some (h # _) \<Rightarrow> h = [])"

definition service_example :: ExportService where
  "service_example =
     \<lparr> data_dir = Path ''data'', output_dir = Path ''output'',
       output_filename = ''puplookup.csv'' \<rparr>"

definition files_no_template :: files where
  \<comment> \<open>the lookup file is absent; an earlier output exists\<close>
  "files_no_template =
     \<lparr> puplookup_csv = None, vpsdb_json = Some (JArray vpsdb_example),
       output_csv = Some [OUT_COLUMNS, out_unknown] \<rparr>"

definition files_example :: files where
  \<comment> \<open>both inputs are present; an earlier output exists\<close>
  "files_example =
     \<lparr> puplookup_csv = Some [BASE_COLUMNS, row_ok, row_short, row_unknown],
       vpsdb_json = Some (JArray vpsdb_example),
       output_csv = Some [OUT_COLUMNS, out_unknown] \<rparr>"

section \<open>Basic facts\<close>

lemma rbind_Inr [simp]: "rbind (Inr x) f = f x"
  by (simp add: rbind_def)

lemma rbind_Inl [simp]: "rbind (Inl e) f = Inl e"
  by (simp add: rbind_def)

lemma length_BASE_COLUMNS [simp]: "length BASE_COLUMNS = 17"
  by (simp add: BASE_COLUMNS_def)

lemma length_OUT_COLUMNS [simp]: "length OUT_COLUMNS = 20"
  by (simp add: OUT_COLUMNS_def)

lemma vps_id_char_not_space: "vps_id_char c \<Longrightarrow> \<not> isspace c"
  by (auto simp: vps_id_char_def isspace_def Let_def)

lemma lstrip_id: "s = [] \<or> \<not> isspace (hd s) \<Longrightarrow> lstrip s = s"
  by (simp add: lstrip_def dropWhile_eq_self_iff)

lemma rstrip_id: "s = [] \<or> \<not> isspace (last s) \<Longrightarrow> rstrip s = s"
proof -
  assume "s = [] \<or> \<not> isspace (last s)"
  then have "rev s = [] \<or> \<not> isspace (hd (rev s))" by (auto simp: hd_rev)
  then have "dropWhile isspace (rev s) = rev s" by (simp only: dropWhile_eq_self_iff)
  then show ?thesis by (simp add: rstrip_def)
qed

lemma strip_trimmed_id: "trimmed s \<Longrightarrow> strip s = s"
  by (auto simp: trimmed_def strip_def rstrip_id lstrip_id)

lemma last_dropWhile_nonempty: "dropWhile P xs \<noteq> [] \<Longrightarrow> last (dropWhile P xs) = last xs"
  by (induction xs) (auto split: if_splits)

lemma trimmed_strip: "trimmed (strip s)"
proof (cases "strip s = []")
  case True
  then show ?thesis by (simp add: trimmed_def)
next
  case False
  let ?r = "rstrip s"
  from False have ne: "dropWhile isspace ?r \<noteq> []" by (simp add: strip_def lstrip_def)
  then have h: "\<not> isspace (hd (strip s))" unfolding strip_def lstrip_def by (rule hd_dropWhile)
  from ne have rne: "?r \<noteq> []" by auto
  then have dne: "dropWhile isspace (rev s) \<noteq> []" by (simp add: rstrip_def)
  have "last ?r = hd (dropWhile isspace (rev s))" using dne by (simp add: rstrip_def last_rev)
  then have "\<not> isspace (last ?r)" using hd_dropWhile [OF dne] by simp
  moreover have "last (strip s) = last ?r"
    unfolding strip_def lstrip_def using ne by (rule last_dropWhile_nonempty)
  ultimately show ?thesis using h by (simp add: trimmed_def)
qed

lemma strip_all_nonspace: "list_all (\<lambda>c. \<not> isspace c) s \<Longrightarrow> strip s = s"
proof (rule strip_trimmed_id)
  assume a: "list_all (\<lambda>c. \<not> isspace c) s"
  show "trimmed s"
  proof (cases "s = []")
    case True
    then show ?thesis by (simp add: trimmed_def)
  next
    case False
    then have "hd s \<in> set s" and "last s \<in> set s" by simp_all
    with a show ?thesis by (simp add: trimmed_def list_all_iff)
  qed
qed

lemma strip_newline_end: "strip (s @ [CHR 0x0A]) = strip s"
  by (simp add: strip_def rstrip_def isspace_def)

lemma strip_before_dollar:
  assumes "list_all vps_id_char (before_dollar s)"
  shows "strip s = before_dollar s"
proof -
  have ns: "list_all (\<lambda>c. \<not> isspace c) (before_dollar s)"
    using assms by (auto simp: list_all_iff vps_id_char_not_space)
  show ?thesis
  proof (cases "s \<noteq> [] \<and> last s = CHR 0x0A")
    case True
    then have "s = butlast s @ [CHR 0x0A]" by (metis append_butlast_last_id)
    then have "strip s = strip (butlast s)" by (metis strip_newline_end)
    with True ns show ?thesis by (simp add: before_dollar_def strip_all_nonspace)
  next
    case False
    with ns show ?thesis by (auto simp: before_dollar_def strip_all_nonspace)
  qed
qed

lemma before_dollar_strip: "before_dollar (strip s) = strip s"
proof -
  have "trimmed (strip s)" by (rule trimmed_strip)
  then have "strip s = [] \<or> last (strip s) \<noteq> CHR 0x0A"
    by (auto simp: trimmed_def isspace_def)
  then show ?thesis by (auto simp: before_dollar_def)
qed

lemma VPS_ID_RE_match_strip: "VPS_ID_RE_match (strip s) = is_source_id (strip s)"
  by (simp add: VPS_ID_RE_match_def is_source_id_def before_dollar_strip)

lemma VPS_ID_RE_match_imp_strip: "VPS_ID_RE_match s \<Longrightarrow> VPS_ID_RE_match (strip s)"
  by (simp add: VPS_ID_RE_match_strip is_source_id_def)
     (simp add: VPS_ID_RE_match_def strip_before_dollar)

lemma is_source_id_imp_match: "is_source_id s \<Longrightarrow> VPS_ID_RE_match s"
proof -
  assume a: "is_source_id s"
  then have ne: "s \<noteq> []" by (auto simp: is_source_id_def)
  then have "last s \<in> set s" by simp
  with a have "vps_id_char (last s)" by (simp add: is_source_id_def list_all_iff)
  then have "last s \<noteq> CHR 0x0A" by (auto simp: vps_id_char_def)
  then have "before_dollar s = s" by (simp add: before_dollar_def)
  with a show ?thesis by (simp add: is_source_id_def VPS_ID_RE_match_def)
qed

section \<open>Row Repair\<close>

lemma repair_retained:
  "repair_template_row row = Inr (Some r) \<Longrightarrow> length r = 17 \<and> VPS_ID_RE_match (strip (r ! 16))"
  by (auto simp: repair_template_row_def rbind_def index_def
           split: sum.splits option.splits if_splits)

lemma repair_well_formed:
  "length row = 17 \<Longrightarrow> VPS_ID_RE_match (strip (row ! 16)) \<Longrightarrow>
   repair_template_row row = Inr (Some row)"
  by (simp add: repair_template_row_def case_A_def case_B_def index_def)

lemma case_A_total:
  "17 \<le> length row \<Longrightarrow> \<exists>r. case_A row = Inr r \<and> 17 \<le> length r"
  by (auto simp: case_A_def index_def assign_def del_def)

lemma case_B_total: "17 \<le> length row \<Longrightarrow> \<exists>b. case_B row = Inr b"
  by (auto simp: case_B_def index_def index_last_def assign_def Let_def)

lemma repair_never_raises: "\<exists>r. repair_template_row row = Inr r"
proof (cases "length row < 17")
  case True
  then show ?thesis by (simp add: repair_template_row_def)
next
  case False
  then obtain r where r: "case_A row = Inr r" "17 \<le> length r"
    using case_A_total [of row] by auto
  obtain b where b: "case_B r = Inr b" using case_B_total [OF r(2)] by auto
  show ?thesis using False r b
    by (auto simp: repair_template_row_def index_def split: option.splits)
qed

lemma join_Cons: "join sep (x # xs) = (if xs = [] then x else x @ sep @ join sep xs)"
  by (cases xs) simp_all

lemma trimmed_glue:
  assumes "trimmed a" "a \<noteq> []" "trimmed b" "b \<noteq> []"
  shows "trimmed (a @ '' '' @ b)"
  using assms by (auto simp: trimmed_def)

lemma append_token_eq:
  assumes "trimmed a" "trimmed b" "b \<noteq> []"
  shows "append_token a b = (if a = [] then b else a @ '' '' @ b)"
proof (cases "a = []")
  case True
  then show ?thesis by (simp add: append_token_def)
next
  case False
  with assms have "trimmed (a @ '' '' @ b)" by (intro trimmed_glue)
  then have "strip (a @ '' '' @ b) = a @ '' '' @ b" by (rule strip_trimmed_id)
  with False show ?thesis by (simp add: append_token_def)
qed

lemma append_token_join:
  assumes "trimmed a" "trimmed b" "b \<noteq> []"
  shows "append_token a b = join '' '' (filter nonempty [a, b])"
  using assms by (simp add: append_token_eq nonempty_def)

lemma append_token_trimmed:
  assumes "trimmed a" "trimmed b" "b \<noteq> []"
  shows "trimmed (append_token a b)"
proof (cases "a = []")
  case True
  with assms show ?thesis by (simp add: append_token_eq)
next
  case False
  with assms have "trimmed (a @ '' '' @ b)" by (intro trimmed_glue)
  with False assms show ?thesis by (simp add: append_token_eq)
qed

lemma join_filter_glue:
  assumes "b \<noteq> []"
  shows "join '' '' (filter nonempty (join '' '' (filter nonempty [a, b]) # ts))
         = join '' '' (filter nonempty (a # b # ts))"
  using assms by (cases "a = []") (simp_all add: nonempty_def join_Cons)

lemma fold_extras_join:
  "trimmed sh \<Longrightarrow>
   fold_extras sh toks = join '' '' (filter nonempty (sh # map strip toks))"
proof (induction toks arbitrary: sh)
  case Nil
  then show ?case by (simp add: nonempty_def)
next
  case (Cons tok toks)
  show ?case
  proof (cases "strip tok = []")
    case True
    with Cons show ?thesis by (simp add: nonempty_def)
  next
    case False
    have t: "trimmed (strip tok)" by (rule trimmed_strip)
    have eq: "append_token sh (strip tok) = join '' '' (filter nonempty [sh, strip tok])"
      by (rule append_token_join [OF Cons.prems t False])
    have tr: "trimmed (append_token sh (strip tok))"
      by (rule append_token_trimmed [OF Cons.prems t False])
    have "fold_extras sh (tok # toks) = fold_extras (append_token sh (strip tok)) toks"
      using False by simp
    also have "\<dots> = join '' '' (filter nonempty (append_token sh (strip tok) # map strip toks))"
      by (rule Cons.IH [OF tr])
    also have "\<dots> = join '' '' (filter nonempty (sh # strip tok # map strip toks))"
      unfolding eq by (rule join_filter_glue [OF False])
    finally show ?thesis by simp
  qed
qed

lemma case_B_fold:
  assumes "17 < length row" "VPS_ID_RE_match (strip (last row))"
  shows "case_B row = Inr (Some ((take 17 row)[15 := folded_tags row, 16 := strip (last row)]))"
proof -
  define r15 where "r15 = strip (row ! 15)"
  define r16 where "r16 = strip (row ! 16)"
  define rest where "rest = map strip (butlast (drop 17 row))"
  define sh where
    "sh = (if r16 \<noteq> [] \<and> \<not> VPS_ID_RE_match r16 then append_token r15 r16 else r15)"
  have t15: "trimmed r15" and t16: "trimmed r16"
    unfolding r15_def r16_def by (rule trimmed_strip)+
  have tsh: "trimmed sh"
    unfolding sh_def using t15 append_token_trimmed [OF t15 t16] by simp
  have fe: "fold_extras sh (butlast (drop 17 row)) = join '' '' (filter nonempty (sh # rest))"
    unfolding rest_def by (rule fold_extras_join [OF tsh])
  have ft: "join '' '' (filter nonempty (sh # rest)) = folded_tags row"
  proof (cases "r16 \<noteq> [] \<and> \<not> VPS_ID_RE_match r16")
    case True
    then have ne: "r16 \<noteq> []" and nm: "\<not> VPS_ID_RE_match r16" by simp_all
    have "sh = join '' '' (filter nonempty [r15, r16])"
      using True append_token_join [OF t15 t16 ne] by (simp add: sh_def)
    then have "join '' '' (filter nonempty (sh # rest))
               = join '' '' (filter nonempty (r15 # r16 # rest))"
      using join_filter_glue [OF ne, of r15 rest] by simp
    also have "\<dots> = folded_tags row"
      using nm by (simp add: folded_tags_def r15_def r16_def rest_def VPS_ID_RE_match_strip)
    finally show ?thesis .
  next
    case False
    then have "sh = r15" by (auto simp: sh_def)
    moreover have "folded_tags row = join '' '' (filter nonempty (r15 # rest))"
      using False
      by (auto simp: folded_tags_def r15_def r16_def rest_def nonempty_def VPS_ID_RE_match_strip)
    ultimately show ?thesis by simp
  qed
  from assms(1) have l: "last (drop 17 row) = last row" "drop 17 row \<noteq> []" by simp_all
  have "fold_extras sh (butlast (drop 17 row)) = folded_tags row"
    using fe ft by (rule trans)
  then have "fold_extras
          (if strip (row ! 16) \<noteq> [] \<and> \<not> VPS_ID_RE_match (strip (row ! 16))
           then append_token (strip (row ! 15)) (strip (row ! 16)) else strip (row ! 15))
          (butlast (drop 17 row)) = folded_tags row"
    unfolding sh_def r15_def r16_def .
  then show ?thesis
    using assms l
    by (simp add: case_B_def index_def index_last_def assign_def Let_def)
qed

lemma case_B_reject:
  assumes "17 < length row" "\<not> VPS_ID_RE_match (strip (last row))"
  shows "case_B row = Inr None"
proof -
  from assms(1) have "last (drop 17 row) = last row" "drop 17 row \<noteq> []" by simp_all
  with assms show ?thesis by (simp add: case_B_def index_last_def Let_def)
qed

lemma traverse_append:
  "traverse f (xs @ ys) =
     rbind (traverse f xs) (\<lambda>as. rbind (traverse f ys) (\<lambda>bs. Inr (as @ bs)))"
  by (induction xs) (auto simp: rbind_def split: sum.splits)

lemma repair_all_skip:
  assumes "repair_template_row row = Inr None"
  shows "repair_all (before @ row # after) = repair_all (before @ after)"
  using assms
  by (auto simp: repair_all_def traverse_append rbind_def split: sum.splits)

text \<open>
  C4 (as amended). Every row that Row Repair retains has exactly 17 fields, and its field at
  index 16, once trimmed of surrounding whitespace, matches the source-identifier pattern.
\<close>

theorem repair_retained_shape:
  "repair_template_row row = Inr (Some r) \<Longrightarrow> length r = 17 \<and> is_source_id (strip (r ! 16))"
  using repair_retained [of row r] by (simp add: VPS_ID_RE_match_strip)

theorem repair_retained_shape_witness:
  "repair_template_row row_padded_id = Inr (Some row_padded_id)
   \<and> length row_padded_id = 17 \<and> is_source_id (strip (row_padded_id ! 16))"
proof -
  have h: "repair_template_row row_padded_id = Inr (Some row_padded_id)" by code_simp
  from repair_retained_shape [OF h] h show ?thesis by simp
qed

text \<open>
  C4 as stated fails: a 17-field row whose identifier field has a blank in front is
  retained as it is, and that field does not match the pattern.
\<close>

theorem repair_retained_untrimmed_id:
  "repair_template_row row_padded_id = Inr (Some row_padded_id)
   \<and> length row_padded_id = 17
   \<and> \<not> is_source_id (row_padded_id ! 16) \<and> \<not> VPS_ID_RE_match (row_padded_id ! 16)"
  by code_simp

text \<open>
  C5 (as amended). For a row that has more than 17 fields after Case A, let \<open>cand\<close> be its
  last field, trimmed. If \<open>cand\<close> matches the identifier pattern, the row is retained with
  its first 17 fields, the tags field (index 15) replaced by the trimmed, non-empty pieces
  joined by single spaces in this order: existing tags, the index-16 content unless it is an
  identifier, the extras but the last; and field 16 replaced by \<open>cand\<close>. Otherwise the row is
  rejected.
\<close>

theorem case_B_folds_extras:
  assumes "case_A raw = Inr row" and "17 < length row"
  shows "repair_template_row raw =
           (if is_source_id (strip (last row))
            then Inr (Some ((take 17 row)[15 := folded_tags row, 16 := strip (last row)]))
            else Inr None)"
proof -
  have raw: "\<not> length raw < 17"
    using assms by (auto simp: case_A_def index_def assign_def del_def split: if_splits)
  show ?thesis
  proof (cases "is_source_id (strip (last row))")
    case True
    then have m: "VPS_ID_RE_match (strip (last row))" by (simp add: VPS_ID_RE_match_strip)
    have "strip (strip (last row)) = strip (last row)"
      by (rule strip_trimmed_id) (rule trimmed_strip)
    with True m raw assms show ?thesis
      by (simp add: repair_template_row_def case_B_fold [OF assms(2) m] index_def)
  next
    case False
    then have m: "\<not> VPS_ID_RE_match (strip (last row))" by (simp add: VPS_ID_RE_match_strip)
    with False raw assms show ?thesis
      by (simp add: repair_template_row_def case_B_reject [OF assms(2) m])
  qed
qed

theorem case_B_folds_extras_witness:
  "case_A row_extras = Inr row_extras \<and> 17 < length row_extras
   \<and> is_source_id (strip (last row_extras))
   \<and> repair_template_row row_extras = Inr (Some row_extras_repaired)
   \<and> (take 17 row_extras)[15 := folded_tags row_extras, 16 := strip (last row_extras)]
       = row_extras_repaired"
proof -
  have a: "case_A row_extras = Inr row_extras" by code_simp
  have l: "17 < length row_extras" by code_simp
  have c: "is_source_id (strip (last row_extras))" by code_simp
  have e: "(take 17 row_extras)[15 := folded_tags row_extras, 16 := strip (last row_extras)]
           = row_extras_repaired" by code_simp
  from case_B_folds_extras [OF a l] a l c e show ?thesis by simp
qed

text \<open>
  C5 as stated fails: the pieces are trimmed before they are joined (and empty ones are left
  out), so the tags field is not the plain space-joined concatenation of the fields.
\<close>

theorem case_B_trims_pieces:
  "case_A row_extras = Inr row_extras \<and> 17 < length row_extras
   \<and> is_source_id (strip (last row_extras))
   \<and> repair_template_row row_extras = Inr (Some row_extras_repaired)
   \<and> row_extras_repaired ! 15 = ''tag1 x''
   \<and> plain_joined_tags row_extras = ''tag1  x''"
  by code_simp

text \<open>
  C9. A row with exactly 17 fields whose field 16 matches the identifier pattern is returned
  unchanged, and repairing a row that Row Repair has retained returns that row again.
\<close>

theorem repair_idempotent:
  "(length row = 17 \<and> (is_source_id (row ! 16) \<or> VPS_ID_RE_match (row ! 16))
      \<longrightarrow> repair_template_row row = Inr (Some row))
   \<and> (repair_template_row raw = Inr (Some r) \<longrightarrow> repair_template_row r = Inr (Some r))"
proof (intro conjI impI)
  assume a: "length row = 17 \<and> (is_source_id (row ! 16) \<or> VPS_ID_RE_match (row ! 16))"
  then have "VPS_ID_RE_match (row ! 16)" by (auto dest: is_source_id_imp_match)
  then have "VPS_ID_RE_match (strip (row ! 16))" by (rule VPS_ID_RE_match_imp_strip)
  with a show "repair_template_row row = Inr (Some row)" by (simp add: repair_well_formed)
next
  assume "repair_template_row raw = Inr (Some r)"
  then have "length r = 17" and "VPS_ID_RE_match (strip (r ! 16))"
    by (simp_all add: repair_retained)
  then show "repair_template_row r = Inr (Some r)" by (rule repair_well_formed)
qed

theorem repair_idempotent_witness:
  "length row_ok = 17 \<and> is_source_id (row_ok ! 16)
   \<and> repair_template_row row_ok = Inr (Some row_ok)
   \<and> repair_template_row row_extras = Inr (Some row_extras_repaired)
   \<and> repair_template_row row_extras_repaired = Inr (Some row_extras_repaired)"
proof -
  have l: "length row_ok = 17" by code_simp
  have i: "is_source_id (row_ok ! 16)" by code_simp
  have h: "repair_template_row row_extras = Inr (Some row_extras_repaired)" by code_simp
  from repair_idempotent [of row_ok row_extras row_extras_repaired] l i h
  show ?thesis by simp
qed

text \<open>
  C10. A row with fewer than 17 fields makes \<^verbatim>\<open>_repair_template_row\<close> return \<^verbatim>\<open>None\<close>, without
  an exception, and \<^verbatim>\<open>_read_template_rows\<close> reads a file with such a row among its data rows
  as it reads the file without it.
\<close>

theorem repair_drops_short_rows:
  "length row < 17 \<Longrightarrow>
   repair_template_row row = Inr None
   \<and> read_template_rows p (Some (header # before @ row # after))
       = read_template_rows p (Some (header # before @ after))"
proof -
  assume "length row < 17"
  then have n: "repair_template_row row = Inr None" by (simp add: repair_template_row_def)
  then show ?thesis by (simp add: read_template_rows_def repair_all_skip)
qed

theorem repair_drops_short_rows_witness:
  "length row_short < 17
   \<and> repair_template_row row_short = Inr None
   \<and> read_template_rows (Path ''data/puplookup.csv'')
         (Some (BASE_COLUMNS # [row_ok] @ row_short # [row_extras]))
       = Inr [row_ok, row_extras_repaired]"
proof -
  have l: "length row_short < 17" by code_simp
  have r: "read_template_rows (Path ''data/puplookup.csv'')
             (Some (BASE_COLUMNS # [row_ok] @ [row_extras])) = Inr [row_ok, row_extras_repaired]"
    by code_simp
  from repair_drops_short_rows [OF l, of "Path ''data/puplookup.csv''" BASE_COLUMNS "[row_ok]" "[row_extras]"] l r
  show ?thesis by simp
qed

section \<open>Field Enricher\<close>

lemma index_of_VPS_ID: "index_of BASE_COLUMNS ''VPS-ID'' = Inr 16"
  by code_simp

lemma index_of_WebLinkURL: "index_of BASE_COLUMNS ''WebLinkURL'' = Inr 8"
  by code_simp

lemma index_of_out_VPS_ID: "index_of OUT_COLUMNS ''VPS-ID'' = Inr 17"
  by code_simp

lemma distinct_BASE_COLUMNS: "distinct BASE_COLUMNS"
  by code_simp

lemma dict_zip_lookup:
  "distinct ks \<Longrightarrow> length ks = length vs \<Longrightarrow> map (dict_get (m(ks [\<mapsto>] vs))) ks = vs"
proof (induction ks arbitrary: vs m)
  case Nil
  then show ?case by simp
next
  case (Cons k ks)
  then obtain v vs' where vs: "vs = v # vs'" by (cases vs) auto
  with Cons.prems have d: "distinct ks" "k \<notin> set ks" and l: "length ks = length vs'" by auto
  have "dict_get ((m(k \<mapsto> v))(ks [\<mapsto>] vs')) k = v"
    using d(2) by (simp add: dict_get_def)
  moreover have "map (dict_get ((m(k \<mapsto> v))(ks [\<mapsto>] vs'))) ks = vs'"
    by (rule Cons.IH [OF d(1) l])
  ultimately show ?case by (simp add: vs)
qed

lemma length_assemble: "assemble out wl2 vps_id master = Inr r \<Longrightarrow> length r = 20"
  by (auto simp: assemble_def index_of_WebLinkURL Let_def)

lemma enrich_no_ctx:
  assumes "length trow = 17" and "ctx_by_vpsid (trow ! 16) = None"
  shows "enrich ctx_by_vpsid master_by_vpsid trow
         = Inr (take 9 trow @ [''''] @ drop 9 trow @ [trow ! 16, ''''])"
proof -
  have "map (dict_get (Map.empty(BASE_COLUMNS [\<mapsto>] trow))) BASE_COLUMNS = trow"
    using assms(1) by (intro dict_zip_lookup distinct_BASE_COLUMNS) simp
  with assms show ?thesis
    by (simp add: enrich_def index_of_VPS_ID index_def assemble_def index_of_WebLinkURL Let_def)
qed

lemma enrich_total:
  assumes "length trow = 17"
  shows "\<exists>r. enrich ctx_by_vpsid master_by_vpsid trow = Inr r \<and> length r = 20
             \<and> r ! 17 = trow ! 16"
proof -
  have l: "length (map (dict_get out) BASE_COLUMNS) = 17" for out :: "string \<rightharpoonup> string"
    by simp
  have n: "(take 9 bs @ [w] @ drop 9 bs @ [v, m]) ! 17 = bs ! 16"
    if "length bs = 17" for bs :: "string list" and w v m
    using that by (simp add: nth_append)
  have a: "\<exists>r. assemble out w v m = Inr r \<and> length r = 20
               \<and> r ! 17 = dict_get out ''VPS-ID''" for out w v m
    unfolding assemble_def Let_def index_of_WebLinkURL rbind_Inr
    using n [OF l, of out]
    by (simp add: BASE_COLUMNS_def)
  have z: "dict_get (Map.empty(BASE_COLUMNS [\<mapsto>] trow)) ''VPS-ID'' = trow ! 16"
  proof -
    have "map (dict_get (Map.empty(BASE_COLUMNS [\<mapsto>] trow))) BASE_COLUMNS ! 16 = trow ! 16"
      using assms by (subst dict_zip_lookup [OF distinct_BASE_COLUMNS]) simp_all
    then show ?thesis by (simp add: BASE_COLUMNS_def)
  qed
  show ?thesis
  proof (cases "ctx_by_vpsid (trow ! 16)")
    case None
    then show ?thesis
      using assms enrich_no_ctx [of trow ctx_by_vpsid master_by_vpsid]
      by (simp add: nth_append)
  next
    case (Some ctx)
    define out where "out = (((((((((((((Map.empty(BASE_COLUMNS [\<mapsto>] trow))
                (''GameName'' \<mapsto> game_name ctx))
                (''Manufact'' \<mapsto> manufacturer ctx))
                (''GameYear'' \<mapsto> year ctx))
                (''NumPlayers'' \<mapsto> players ctx))
                (''GameType'' \<mapsto> game_type ctx))
                (''GameTheme'' \<mapsto> theme ctx))
                (''WebLinkURL'' \<mapsto> ipdb_url ctx))
                (''IPDBNum'' \<mapsto> ipdb_num ctx))
                (''DesignedBy'' \<mapsto> designers ctx))
                (''Author'' \<mapsto> join '', '' (authors ctx)))
                (''GAMEVER'' \<mapsto> version ctx))
                (''Tags'' \<mapsto> join '', '' (tags_list ctx)))
                (''GameFileName'' \<mapsto> build_gamefile_name ctx)"
    have o: "dict_get out ''VPS-ID'' = trow ! 16"
      using z by (simp add: out_def dict_get_def)
    have e: "enrich ctx_by_vpsid master_by_vpsid trow
             = assemble out
                 (if (case master_by_vpsid (trow ! 16) of None \<Rightarrow> game_id ctx | Some m \<Rightarrow> m) \<noteq> []
                  then weblink2 (case master_by_vpsid (trow ! 16) of None \<Rightarrow> game_id ctx | Some m \<Rightarrow> m)
                         (trow ! 16)
                  else [])
                 (trow ! 16)
                 (case master_by_vpsid (trow ! 16) of None \<Rightarrow> game_id ctx | Some m \<Rightarrow> m)"
      using assms Some
      by (simp add: enrich_def index_of_VPS_ID index_def Let_def out_def)
    show ?thesis unfolding e using a [of out] o by auto
  qed
qed

text \<open>
  C8. A repaired template row whose identifier has no Enrichment Context yields the Output
  Row made of its 17 fields unchanged, with an empty second web-link field right after the
  first web-link field (index 8), followed by the row's identifier and an empty owning
  identifier; the fields line up with the 20 output columns.
\<close>

theorem no_context_passthrough:
  assumes "repair_template_row raw = Inr (Some trow)"
    and "ctx_by_vpsid (trow ! 16) = None"
  shows "enrich ctx_by_vpsid master_by_vpsid trow
           = Inr (take 9 trow @ [''''] @ drop 9 trow @ [trow ! 16, ''''])
         \<and> BASE_COLUMNS ! 8 = ''WebLinkURL'' \<and> BASE_COLUMNS ! 16 = ''VPS-ID''
         \<and> OUT_COLUMNS = take 9 BASE_COLUMNS @ [''WebLink2URL''] @ drop 9 BASE_COLUMNS
                          @ [''WebGameID'', ''MasterID'']"
proof -
  from assms(1) have l: "length trow = 17" by (simp add: repair_retained)
  have c: "BASE_COLUMNS ! 8 = ''WebLinkURL'' \<and> BASE_COLUMNS ! 16 = ''VPS-ID''
           \<and> OUT_COLUMNS = take 9 BASE_COLUMNS @ [''WebLink2URL''] @ drop 9 BASE_COLUMNS
                            @ [''WebGameID'', ''MasterID'']"
    by code_simp
  from enrich_no_ctx [of trow ctx_by_vpsid master_by_vpsid] l assms(2) c
  show ?thesis by simp
qed

theorem no_context_passthrough_witness:
  "repair_template_row row_unknown = Inr (Some row_unknown)
   \<and> build_indexes vpsdb_example (row_unknown ! 16) = None
   \<and> enrich (build_indexes vpsdb_example) (build_master_map vpsdb_example) row_unknown
     = Inr [''other.vpx'', ''Zed'', ''Mfg'', ''1999'', ''2'', ''SS'', ''Cat'', ''Theme'',
            ''ipdb.org?id=7'', '''', ''7'', '''', ''Designer'', ''Author'', ''2.0'', ''rom'',
            ''tag2'', ''zzz99999'', ''zzz99999'', '''']"
proof -
  have r: "repair_template_row row_unknown = Inr (Some row_unknown)" by code_simp
  have n: "build_indexes vpsdb_example (row_unknown ! 16) = None" by code_simp
  have e: "take 9 row_unknown @ [''''] @ drop 9 row_unknown @ [row_unknown ! 16, '''']
           = [''other.vpx'', ''Zed'', ''Mfg'', ''1999'', ''2'', ''SS'', ''Cat'', ''Theme'',
              ''ipdb.org?id=7'', '''', ''7'', '''', ''Designer'', ''Author'', ''2.0'', ''rom'',
              ''tag2'', ''zzz99999'', ''zzz99999'', '''']" by code_simp
  from no_context_passthrough [of row_unknown row_unknown "build_indexes vpsdb_example"
         "build_master_map vpsdb_example"] r n e
  show ?thesis by simp
qed

text \<open>
  C7 (as amended). An explicit file-name override is used verbatim. Otherwise the file name
  is the composed display name with every \<^verbatim>\<open>/\<close> replaced by \<^verbatim>\<open>_\<close>; then, if the author list is
  not empty and the first author's name is not empty, a space, that name, a space and the
  version (a trailing space when the version is empty), else a space and the version only
  when the version is not empty; then \<^verbatim>\<open> MOD\<close> and \<^verbatim>\<open> VR\<close> for the tags of these names. The
  specification's example gives \<^verbatim>\<open>Game (X 2020) Smith 1.2 VR\<close>.
\<close>

theorem gamefile_name_rule:
  "build_gamefile_name ctx =
     (if tf_gamefile_name ctx \<noteq> [] then tf_gamefile_name ctx
      else map (\<lambda>c. if c = CHR ''/'' then CHR ''_'' else c) (game_name ctx)
           @ (if authors ctx \<noteq> [] \<and> hd (authors ctx) \<noteq> []
              then '' '' @ hd (authors ctx) @ '' '' @ version ctx
              else if version ctx \<noteq> [] then '' '' @ version ctx else [])
           @ (if ''MOD'' \<in> set (tags_list ctx) then '' MOD'' else [])
           @ (if ''VR'' \<in> set (tags_list ctx) then '' VR'' else []))
   \<and> build_gamefile_name ctx_smith = ''Game (X 2020) Smith 1.2 VR''"
proof
  show "build_gamefile_name ctx_smith = ''Game (X 2020) Smith 1.2 VR''" by code_simp
  show "build_gamefile_name ctx =
     (if tf_gamefile_name ctx \<noteq> [] then tf_gamefile_name ctx
      else map (\<lambda>c. if c = CHR ''/'' then CHR ''_'' else c) (game_name ctx)
           @ (if authors ctx \<noteq> [] \<and> hd (authors ctx) \<noteq> []
              then '' '' @ hd (authors ctx) @ '' '' @ version ctx
              else if version ctx \<noteq> [] then '' '' @ version ctx else [])
           @ (if ''MOD'' \<in> set (tags_list ctx) then '' MOD'' else [])
           @ (if ''VR'' \<in> set (tags_list ctx) then '' VR'' else []))"
    by (cases "authors ctx")
       (simp_all add: build_gamefile_name_def sanitize_filename_part_def Let_def)
qed

text \<open>
  C7 as stated fails when an author exists but the first author's name is empty: the code
  then treats the row as having no author.
\<close>

theorem gamefile_name_blank_first_author:
  "authors ctx_blank_author \<noteq> [] \<and> tf_gamefile_name ctx_blank_author = ''''
   \<and> build_gamefile_name ctx_blank_author = ''Game (X 2020) 1.2 VR''
   \<and> claimed_gamefile_name ctx_blank_author = ''Game (X 2020)  1.2 VR''"
  by code_simp

section \<open>Metadata Indexer\<close>

lemma py_in_sublist: "py_in sub s = sublist sub s"
proof (induction s)
  case Nil
  then show ?case by auto
next
  case (Cons c s)
  then show ?case by (simp add: sublist_Cons_right)
qed

lemma index_table_files_cases:
  "index_table_files g i tfs out vid = Some ctx \<Longrightarrow>
   out vid = Some ctx
   \<or> (\<exists>k tf. k < length tfs \<and> tfs ! k = Some tf \<and> t_id tf = Some vid \<and> vid \<noteq> []
             \<and> ctx = ctx_of g (i + k) tf)"
proof (induction tfs arbitrary: i out)
  case Nil
  then show ?case by simp
next
  case (Cons x tfs)
  let ?out = "case x of None \<Rightarrow> out
              | Some tf \<Rightarrow> (case t_id tf of None \<Rightarrow> out
                           | Some v \<Rightarrow> if v = [] then out else out(v \<mapsto> ctx_of g i tf))"
  from Cons.prems have "index_table_files g (Suc i) tfs ?out vid = Some ctx" by simp
  from Cons.IH [OF this] show ?case
  proof
    assume o: "?out vid = Some ctx"
    show ?thesis
    proof (cases "out vid = Some ctx")
      case True
      then show ?thesis by simp
    next
      case False
      with o obtain tf where "x = Some tf" "t_id tf = Some vid" "vid \<noteq> []" "ctx = ctx_of g i tf"
        by (auto split: option.splits if_splits)
      then have "0 < length (x # tfs) \<and> (x # tfs) ! 0 = Some tf \<and> t_id tf = Some vid
                 \<and> vid \<noteq> [] \<and> ctx = ctx_of g (i + 0) tf" by simp
      then show ?thesis by blast
    qed
  next
    assume "\<exists>k tf. k < length tfs \<and> tfs ! k = Some tf \<and> t_id tf = Some vid \<and> vid \<noteq> []
                   \<and> ctx = ctx_of g (Suc i + k) tf"
    then obtain k tf where "k < length tfs" "tfs ! k = Some tf" "t_id tf = Some vid" "vid \<noteq> []"
      "ctx = ctx_of g (Suc i + k) tf" by blast
    then have "Suc k < length (x # tfs) \<and> (x # tfs) ! Suc k = Some tf \<and> t_id tf = Some vid
               \<and> vid \<noteq> [] \<and> ctx = ctx_of g (i + Suc k) tf" by simp
    then show ?thesis by blast
  qed
qed

lemma index_games_cases:
  "index_games gs out vid = Some ctx \<Longrightarrow>
   out vid = Some ctx
   \<or> (\<exists>g k tf. Some g \<in> set gs \<and> k < length (table_files_of g)
               \<and> table_files_of g ! k = Some tf \<and> t_id tf = Some vid \<and> vid \<noteq> []
               \<and> ctx = ctx_of g k tf)"
proof (induction gs arbitrary: out)
  case Nil
  then show ?case by simp
next
  case (Cons x gs)
  let ?out = "case x of None \<Rightarrow> out | Some g \<Rightarrow> index_table_files g 0 (table_files_of g) out"
  from Cons.prems have "index_games gs ?out vid = Some ctx" by simp
  from Cons.IH [OF this] show ?case
  proof
    assume o: "?out vid = Some ctx"
    show ?thesis
    proof (cases x)
      case None
      with o show ?thesis by simp
    next
      case (Some g)
      with o have "index_table_files g 0 (table_files_of g) out vid = Some ctx" by simp
      from index_table_files_cases [OF this] Some show ?thesis by auto
    qed
  next
    assume "\<exists>g k tf. Some g \<in> set gs \<and> k < length (table_files_of g)
               \<and> table_files_of g ! k = Some tf \<and> t_id tf = Some vid \<and> vid \<noteq> []
               \<and> ctx = ctx_of g k tf"
    then show ?thesis by auto
  qed
qed

lemma game_name_of_eq:
  "game_name_of g tf =
     base_name_of g
     @ (if edition_of tf \<noteq> [] \<and> \<not> sublist (lower (edition_of tf)) (lower (base_name_of g))
        then '' - '' @ edition_of tf else [])
     @ (if manuf_of g \<noteq> [] \<and> year_s_of g \<noteq> []
        then '' ('' @ manuf_of g @ '' '' @ year_s_of g @ '')'' else [])"
  by (simp add: game_name_of_def name_with_ed_of_def py_in_sublist)

text \<open>
  C6. The composed display name of a table file of a game entry is the base name, then
  \<^verbatim>\<open> - \<close> and the edition exactly when the edition is not empty and its lower-cased form
  is not a substring of the lower-cased base name, then \<^verbatim>\<open> (manufacturer year)\<close> exactly when
  manufacturer and year string are both not empty. Every context of the index is built this
  way from a table file of an entry, and base name \<^verbatim>\<open>Pinball Wizard\<close> with edition \<^verbatim>\<open>Blue\<close>
  gives \<^verbatim>\<open>Pinball Wizard - Blue\<close>.
\<close>

theorem composed_display_name:
  "game_name (ctx_of g idx tf) =
     or_empty (g_name g)
     @ (if or_empty (t_edition tf) \<noteq> []
           \<and> \<not> sublist (lower (or_empty (t_edition tf))) (lower (or_empty (g_name g)))
        then '' - '' @ or_empty (t_edition tf) else [])
     @ (if or_empty (g_manufacturer g) \<noteq> [] \<and> coerce_scalar (g_year g) \<noteq> []
        then '' ('' @ or_empty (g_manufacturer g) @ '' '' @ coerce_scalar (g_year g) @ '')''
        else [])
   \<and> (build_indexes vpsdb vid = Some ctx \<longrightarrow>
        (\<exists>g k tf. Some g \<in> set vpsdb \<and> k < length (table_files_of g)
                  \<and> table_files_of g ! k = Some tf \<and> t_id tf = Some vid
                  \<and> ctx = ctx_of g k tf))
   \<and> game_name (ctx_of game_pinball_wizard 0 table_file_blue) = ''Pinball Wizard - Blue''
   \<and> game_name (ctx_of game_pinball_wizard 0 table_file_wizard) = ''Pinball Wizard''"
proof (intro conjI impI)
  show "game_name (ctx_of g idx tf) =
     or_empty (g_name g)
     @ (if or_empty (t_edition tf) \<noteq> []
           \<and> \<not> sublist (lower (or_empty (t_edition tf))) (lower (or_empty (g_name g)))
        then '' - '' @ or_empty (t_edition tf) else [])
     @ (if or_empty (g_manufacturer g) \<noteq> [] \<and> coerce_scalar (g_year g) \<noteq> []
        then '' ('' @ or_empty (g_manufacturer g) @ '' '' @ coerce_scalar (g_year g) @ '')''
        else [])"
    using game_name_of_eq [of g tf]
    by (simp add: ctx_of_def Let_def base_name_of_def edition_of_def manuf_of_def year_s_of_def)
next
  assume "build_indexes vpsdb vid = Some ctx"
  then have "index_games vpsdb Map.empty vid = Some ctx" by (simp add: build_indexes_def)
  from index_games_cases [OF this]
  show "\<exists>g k tf. Some g \<in> set vpsdb \<and> k < length (table_files_of g)
                  \<and> table_files_of g ! k = Some tf \<and> t_id tf = Some vid
                  \<and> ctx = ctx_of g k tf" by auto
next
  show "game_name (ctx_of game_pinball_wizard 0 table_file_blue) = ''Pinball Wizard - Blue''"
    by code_simp
next
  show "game_name (ctx_of game_pinball_wizard 0 table_file_wizard) = ''Pinball Wizard''"
    by code_simp
qed

theorem composed_display_name_witness:
  "build_indexes vpsdb_example ''abc12345'' = Some (ctx_of game_example 0 table_file_example)
   \<and> game_name (ctx_of game_example 0 table_file_example) = ''Game (Mfg 2020)''
   \<and> (\<exists>g k tf. Some g \<in> set vpsdb_example \<and> k < length (table_files_of g)
                  \<and> table_files_of g ! k = Some tf \<and> t_id tf = Some ''abc12345''
                  \<and> ctx_of game_example 0 table_file_example = ctx_of g k tf)"
proof -
  have b: "build_indexes vpsdb_example ''abc12345''
           = Some (ctx_of game_example 0 table_file_example)"
    by code_simp
  have n: "game_name (ctx_of game_example 0 table_file_example)
           = ''Game (Mfg 2020)''"
    by code_simp
  from composed_display_name [of game_example 0 table_file_example
         vpsdb_example "''abc12345''"
         "ctx_of game_example 0 table_file_example"] b n
  show ?thesis by simp
qed

section \<open>Ordering\<close>

lemma traverse_total:
  "(\<And>x. x \<in> set xs \<Longrightarrow> f x = Inr (g x)) \<Longrightarrow> traverse f xs = Inr (map g xs)"
  by (induction xs) simp_all

lemma traverse_Inr_length: "traverse f xs = Inr ys \<Longrightarrow> length ys = length xs"
  by (induction xs arbitrary: ys) (auto simp: rbind_def split: sum.splits)

lemma traverse_Inr_nth:
  "traverse f xs = Inr ys \<Longrightarrow> i < length xs \<Longrightarrow> f (xs ! i) = Inr (ys ! i)"
proof (induction xs arbitrary: ys i)
  case Nil
  then show ?case by simp
next
  case (Cons x xs)
  then show ?case by (cases i) (auto simp: rbind_def split: sum.splits)
qed

lemma insort_key_decorated:
  assumes "\<And>p. p \<in> set ps \<Longrightarrow> fst p = k (snd p)"
  shows "map snd (insort_key fst (k x, x) ps) = insort_key k x (map snd ps)"
  using assms by (induction ps) auto

lemma sort_key_decorated:
  "map snd (sort_key fst (zip (map k xs) xs)) = sort_key k xs"
proof (induction xs)
  case Nil
  then show ?case by simp
next
  case (Cons x xs)
  have "\<And>p. p \<in> set (sort_key fst (zip (map k xs) xs)) \<Longrightarrow> fst p = k (snd p)"
    by (auto simp: set_zip)
  then have "map snd (insort_key fst (k x, x) (sort_key fst (zip (map k xs) xs)))
             = insort_key k x (map snd (sort_key fst (zip (map k xs) xs)))"
    by (rule insort_key_decorated)
  with Cons show ?case by simp
qed

lemma sorted_py_total:
  assumes "\<And>x. x \<in> set xs \<Longrightarrow> k x = Inr (k' x)"
  shows "sorted_py k xs = Inr (sort_key k' xs)"
  using traverse_total [of xs k k', OF assms]
  by (simp add: sorted_py_def sort_key_decorated)

lemma key_row_key: "length row = 20 \<Longrightarrow> key ctx_by_vpsid row = Inr (row_key ctx_by_vpsid row)"
  by (simp add: key_def row_key_def index_of_out_VPS_ID index_def sort_key_for_ctx_def
           split: option.splits)

lemma split_head_absent: "\<not> sublist sep s \<Longrightarrow> split_head sep s = s"
  by (induction s) (auto simp: sublist_Cons_right)

lemma prefix_shorten:
  assumes "prefix sep (q @ sep @ rest)" and "q \<noteq> []" and "sep \<noteq> []"
  shows "prefix sep (q @ butlast sep)"
proof -
  have len: "length sep \<le> length (q @ butlast sep)" using assms(2) by (cases q) simp_all
  have "take (length sep) (q @ sep @ rest) = sep"
    using assms(1) by (metis append_eq_conv_conj prefix_def)
  moreover have "q @ sep @ rest = (q @ butlast sep) @ (last sep # rest)"
    using assms(3) by simp
  ultimately have "take (length sep) (q @ butlast sep) = sep"
    using len
    by (metis append_eq_conv_conj append_take_drop_id take_append take_all_iff append_Nil2)
  then show ?thesis by (metis take_is_prefix)
qed

lemma split_head_first:
  "sep \<noteq> [] \<Longrightarrow> \<not> sublist sep (p @ butlast sep) \<Longrightarrow> split_head sep (p @ sep @ rest) = p"
proof (induction p)
  case Nil
  then show ?case by (cases sep) simp_all
next
  case (Cons c p)
  from Cons.prems(2) have np: "\<not> prefix sep ((c # p) @ butlast sep)"
    and ns: "\<not> sublist sep (p @ butlast sep)"
    by (auto simp: sublist_Cons_right)
  have "\<not> prefix sep ((c # p) @ sep @ rest)"
    using prefix_shorten [of sep "c # p" rest] np Cons.prems(1) by blast
  with Cons.IH [OF Cons.prems(1) ns] show ?case by simp
qed

lemma split_head_decomp:
  "sep \<noteq> [] \<Longrightarrow> sublist sep s \<Longrightarrow>
   (\<exists>rest. s = split_head sep s @ sep @ rest) \<and> \<not> sublist sep (split_head sep s @ butlast sep)"
proof (induction s)
  case Nil
  then show ?case by simp
next
  case (Cons c s)
  show ?case
  proof (cases "prefix sep (c # s)")
    case True
    have "\<not> sublist sep (butlast sep)"
    proof
      assume "sublist sep (butlast sep)"
      then have "length sep \<le> length (butlast sep)" by (rule sublist_length_le)
      moreover have "length (butlast sep) < length sep"
        using Cons.prems(1) by (cases sep rule: rev_cases) simp_all
      ultimately show False by (meson leD)
    qed
    with True show ?thesis by (auto simp: prefix_def)
  next
    case False
    with Cons.prems(2) have "sublist sep s" by (simp add: sublist_Cons_right)
    from Cons.IH [OF Cons.prems(1) this] obtain rest
      where s: "s = split_head sep s @ sep @ rest"
        and n: "\<not> sublist sep (split_head sep s @ butlast sep)" by blast
    have "\<not> prefix sep ((c # split_head sep s) @ butlast sep)"
    proof
      assume p: "prefix sep ((c # split_head sep s) @ butlast sep)"
      have "prefix ((c # split_head sep s) @ butlast sep) ((c # split_head sep s) @ sep @ rest)"
        using Cons.prems(1) by (simp add: prefix_def) (metis append_butlast_last_id append_assoc)
      with p have "prefix sep ((c # split_head sep s) @ sep @ rest)" by (rule prefix_order.trans)
      with s have "prefix sep (c # s)" by simp
      with False show False by simp
    qed
    with n have "\<not> sublist sep ((c # split_head sep s) @ butlast sep)"
      by (simp add: sublist_Cons_right)
    moreover have "c # s = (c # split_head sep s) @ sep @ rest" using s by simp
    ultimately show ?thesis using False by auto
  qed
qed

lemma split_head_is_name_prefix: "is_name_prefix (split_head '' ('' name) name"
proof (cases "sublist '' ('' name")
  case True
  with split_head_decomp [of "'' (''" name] show ?thesis by (simp add: is_name_prefix_def)
next
  case False
  then show ?thesis by (simp add: is_name_prefix_def split_head_absent)
qed

lemma enrich_all:
  assumes "list_all (\<lambda>t. length t = 17) template_rows"
  shows "\<exists>data. traverse (enrich c m) template_rows = Inr data
               \<and> length data = length template_rows
               \<and> list_all (\<lambda>r. length r = 20) data
               \<and> (\<forall>i<length template_rows. data ! i ! 17 = template_rows ! i ! 16)"
  using assms
proof (induction template_rows)
  case Nil
  then show ?case by simp
next
  case (Cons t ts)
  then obtain data where d: "traverse (enrich c m) ts = Inr data" "length data = length ts"
    "list_all (\<lambda>r. length r = 20) data" "\<forall>i<length ts. data ! i ! 17 = ts ! i ! 16"
    by auto
  from Cons.prems have "length t = 17" by simp
  from enrich_total [OF this, of c m] obtain r
    where r: "enrich c m t = Inr r" "length r = 20" "r ! 17 = t ! 16" by blast
  have "\<forall>i<length (t # ts). (r # data) ! i ! 17 = (t # ts) ! i ! 16"
    using d(4) r(3) by (auto simp: nth_Cons split: nat.splits)
  with d r show ?case by simp
qed

lemma nil_prefix_key_less:
  fixes a b c :: int
  shows "p \<noteq> [] \<Longrightarrow> (([], 0, 0, 9999) :: key_tuple) < (p, a, b, c)"
  by (cases p) (simp_all add: less_prod_def)

lemma generate_rows_sorted:
  assumes "list_all (\<lambda>t. length t = 17) template_rows"
  shows "\<exists>data. traverse (enrich c m) template_rows = Inr data
               \<and> (\<forall>i<length template_rows. data ! i ! 17 = template_rows ! i ! 16)
               \<and> generate_rows template_rows c m
                   = Inr (OUT_COLUMNS # sort_key (row_key c) data)"
proof -
  from enrich_all [OF assms, of c m] obtain data
    where d: "traverse (enrich c m) template_rows = Inr data"
      and l: "list_all (\<lambda>r. length r = 20) data"
      and v: "\<forall>i<length template_rows. data ! i ! 17 = template_rows ! i ! 16" by blast
  have "\<And>x. x \<in> set data \<Longrightarrow> key c x = Inr (row_key c x)"
    using l by (simp add: list_all_iff key_row_key)
  then have "sorted_py (key c) data = Inr (sort_key (row_key c) data)"
    by (rule sorted_py_total)
  with d have "generate_rows template_rows c m = Inr (OUT_COLUMNS # sort_key (row_key c) data)"
    by (simp add: generate_rows_def)
  with d v show ?thesis by blast
qed

lemma generate_rows_order:
  assumes "list_all (\<lambda>t. length t = 17) template_rows"
  shows "\<exists>data rows.
           traverse (enrich c m) template_rows = Inr data
         \<and> generate_rows template_rows c m = Inr (OUT_COLUMNS # rows)
         \<and> mset rows = mset data
         \<and> (\<forall>i<length template_rows. data ! i ! 17 = template_rows ! i ! 16)
         \<and> sorted (map (row_key c) rows)
         \<and> (\<forall>k. filter (\<lambda>r. row_key c r = k) rows = filter (\<lambda>r. row_key c r = k) data)
         \<and> (\<forall>r\<in>set rows. \<forall>ctx. c (r ! 17) = Some ctx \<longrightarrow>
               (\<exists>p. is_name_prefix p (game_name ctx)
                    \<and> row_key c r = (p, - created_at ctx, (if edition ctx = [] then 0 else 1),
                                     tf_index ctx)))
         \<and> (\<forall>r\<in>set rows. c (r ! 17) = None \<longrightarrow> row_key c r = ('''', 0, 0, 9999))
         \<and> (\<forall>i j. i < length rows \<and> j < length rows \<and> c (rows ! i ! 17) = None
                 \<and> (\<exists>ctx. c (rows ! j ! 17) = Some ctx \<and> split_head '' ('' (game_name ctx) \<noteq> [])
                 \<longrightarrow> i < j)"
proof -
  from generate_rows_sorted [OF assms, of c m] obtain data
    where d: "traverse (enrich c m) template_rows = Inr data"
      and v: "\<forall>i<length template_rows. data ! i ! 17 = template_rows ! i ! 16"
      and g0: "generate_rows template_rows c m = Inr (OUT_COLUMNS # sort_key (row_key c) data)"
    by blast
  define rows where "rows = sort_key (row_key c) data"
  from g0 have g: "generate_rows template_rows c m = Inr (OUT_COLUMNS # rows)"
    by (simp add: rows_def)
  have ms: "mset rows = mset data" by (simp add: rows_def)
  have so: "sorted (map (row_key c) rows)" by (simp add: rows_def)
  have st: "\<forall>k. filter (\<lambda>r. row_key c r = k) rows = filter (\<lambda>r. row_key c r = k) data"
    by (simp add: rows_def sort_key_stable)
  have kc: "\<forall>r\<in>set rows. \<forall>ctx. c (r ! 17) = Some ctx \<longrightarrow>
               (\<exists>p. is_name_prefix p (game_name ctx)
                    \<and> row_key c r = (p, - created_at ctx, (if edition ctx = [] then 0 else 1),
                                     tf_index ctx))"
    using split_head_is_name_prefix by (auto simp: row_key_def)
  have kn: "\<forall>r\<in>set rows. c (r ! 17) = None \<longrightarrow> row_key c r = ('''', 0, 0, 9999)"
    by (simp add: row_key_def)
  have ord: "\<forall>i j. i < length rows \<and> j < length rows \<and> c (rows ! i ! 17) = None
                 \<and> (\<exists>ctx. c (rows ! j ! 17) = Some ctx \<and> split_head '' ('' (game_name ctx) \<noteq> [])
                 \<longrightarrow> i < j"
  proof (intro allI impI)
    fix i j
    assume a: "i < length rows \<and> j < length rows \<and> c (rows ! i ! 17) = None
                 \<and> (\<exists>ctx. c (rows ! j ! 17) = Some ctx \<and> split_head '' ('' (game_name ctx) \<noteq> [])"
    then obtain ctx where cj: "c (rows ! j ! 17) = Some ctx"
      and ne: "split_head '' ('' (game_name ctx) \<noteq> []" by blast
    from a have ki: "row_key c (rows ! i) = ([], 0, 0, 9999)" by (simp add: row_key_def)
    from cj have kj: "row_key c (rows ! j)
                  = (split_head '' ('' (game_name ctx), - created_at ctx,
                     (if edition ctx = [] then 0 else 1), tf_index ctx)"
      by (simp add: row_key_def)
    have "(([], 0, 0, 9999) :: key_tuple)
          < (split_head '' ('' (game_name ctx), - created_at ctx,
             (if edition ctx = [] then 0 else 1), tf_index ctx)"
      by (rule nil_prefix_key_less [OF ne])
    with kj have "([], 0, 0, 9999) < row_key c (rows ! j)" by (simp only:)
    with ki have lt: "row_key c (rows ! i) < row_key c (rows ! j)" by simp
    show "i < j"
    proof (rule ccontr)
      assume "\<not> i < j"
      then have "j \<le> i" by simp
      with so a have "map (row_key c) rows ! j \<le> map (row_key c) rows ! i"
        by (intro sorted_nth_mono) simp_all
      with a have "row_key c (rows ! j) \<le> row_key c (rows ! i)" by simp
      with lt show False by simp
    qed
  qed
  from d g ms v so st kc kn ord show ?thesis by blast
qed

section \<open>Merge Engine\<close>

lemma traverse_repair_total:
  "\<exists>fixed. traverse repair_template_row rows = Inr fixed
           \<and> (\<forall>f\<in>set fixed. \<forall>r. f = Some r \<longrightarrow> length r = 17)"
proof (induction rows)
  case Nil
  then show ?case by simp
next
  case (Cons row rows)
  then obtain fixed where f: "traverse repair_template_row rows = Inr fixed"
    "\<forall>f\<in>set fixed. \<forall>r. f = Some r \<longrightarrow> length r = 17" by blast
  obtain x where x: "repair_template_row row = Inr x" using repair_never_raises by blast
  then have "\<forall>r. x = Some r \<longrightarrow> length r = 17" by (auto dest: repair_retained)
  with f x show ?case by simp
qed

lemma repair_all_total:
  "\<exists>trows. repair_all rows = Inr trows \<and> list_all (\<lambda>t. length t = 17) trows"
proof -
  from traverse_repair_total [of rows] obtain fixed
    where f: "traverse repair_template_row rows = Inr fixed"
      "\<forall>f\<in>set fixed. \<forall>r. f = Some r \<longrightarrow> length r = 17" by blast
  have "list_all (\<lambda>t. length t = 17)
          (concat (map (\<lambda>f. case f of None \<Rightarrow> [] | Some r \<Rightarrow> if r \<noteq> [] then [r] else []) fixed))"
    using f(2) by (auto simp: list_all_iff split: option.splits if_splits)
  with f(1) show ?thesis by (simp add: repair_all_def)
qed

lemma read_template_rows_cases:
  "(file = None \<and> read_template_rows p file = Inl (DataValidationError (Missing_template_CSV p)))
   \<or> (no_header_row file
       \<and> read_template_rows p file = Inl (DataValidationError Template_CSV_has_no_header_row))
   \<or> (file \<noteq> None \<and> \<not> no_header_row file
       \<and> (\<exists>trows. read_template_rows p file = Inr trows
                   \<and> list_all (\<lambda>t. length t = 17) trows))"
proof (cases "file")
  case None
  then show ?thesis by (simp add: read_template_rows_def)
next
  case (Some rows)
  show ?thesis
  proof (cases rows)
    case Nil
    with Some show ?thesis by (simp add: read_template_rows_def no_header_row_def)
  next
    case (Cons h rest)
    show ?thesis
    proof (cases "h = []")
      case True
      with Some Cons show ?thesis by (simp add: read_template_rows_def no_header_row_def)
    next
      case False
      with Some Cons repair_all_total [of rest] show ?thesis
        by (simp add: read_template_rows_def no_header_row_def)
    qed
  qed
qed

lemma generate_output_csv_cases:
  "(puplookup_csv fs = None
      \<and> generate_output_csv self fs
          = (Inl (DataValidationError (Missing_template_CSV (Slash (data_dir self) ''puplookup.csv''))), fs))
   \<or> (no_header_row (puplookup_csv fs)
      \<and> generate_output_csv self fs
          = (Inl (DataValidationError Template_CSV_has_no_header_row), fs))
   \<or> (puplookup_csv fs \<noteq> None \<and> \<not> no_header_row (puplookup_csv fs) \<and> vpsdb_json fs = None
      \<and> generate_output_csv self fs
          = (Inl (DataValidationError (Missing_vpsdb_json (Slash (data_dir self) ''vpsdb.json''))), fs))
   \<or> (puplookup_csv fs \<noteq> None \<and> \<not> no_header_row (puplookup_csv fs)
      \<and> vpsdb_json fs = Some JOther
      \<and> generate_output_csv self fs
          = (Inl (DataValidationError vpsdb_json_expected_to_be_a_JSON_array), fs))
   \<or> (puplookup_csv fs \<noteq> None \<and> \<not> no_header_row (puplookup_csv fs)
      \<and> (\<exists>vpsdb rows. vpsdb_json fs = Some (JArray vpsdb)
            \<and> generate_output_csv self fs
                = (Inr (Slash (output_dir self) (output_filename self)),
                   fs\<lparr>output_csv := Some (OUT_COLUMNS # rows)\<rparr>)))"
proof -
  let ?p = "Slash (data_dir self) ''puplookup.csv''"
  from read_template_rows_cases [of "puplookup_csv fs" ?p]
  consider
      (absent) "puplookup_csv fs = None"
        "read_template_rows ?p (puplookup_csv fs) = Inl (DataValidationError (Missing_template_CSV ?p))"
    | (headerless) "no_header_row (puplookup_csv fs)"
        "read_template_rows ?p (puplookup_csv fs) = Inl (DataValidationError Template_CSV_has_no_header_row)"
    | (rows) trows where "puplookup_csv fs \<noteq> None" "\<not> no_header_row (puplookup_csv fs)"
        "read_template_rows ?p (puplookup_csv fs) = Inr trows"
        "list_all (\<lambda>t. length t = 17) trows"
    by auto
  then show ?thesis
  proof cases
    case absent
    then show ?thesis by (simp add: generate_output_csv_def)
  next
    case headerless
    then show ?thesis by (simp add: generate_output_csv_def)
  next
    case rows
    show ?thesis
    proof (cases "vpsdb_json fs")
      case None
      with rows show ?thesis by (simp add: generate_output_csv_def read_vpsdb_def)
    next
      case (Some doc)
      show ?thesis
      proof (cases doc)
        case JOther
        with Some rows show ?thesis by (simp add: generate_output_csv_def read_vpsdb_def)
      next
        case (JArray vpsdb)
        from generate_rows_sorted [OF rows(4), of "build_indexes vpsdb" "build_master_map vpsdb"]
        obtain out where "generate_rows trows (build_indexes vpsdb) (build_master_map vpsdb)
                          = Inr (OUT_COLUMNS # out)" by blast
        with JArray Some rows
        have "generate_output_csv self fs
                = (Inr (Slash (output_dir self) (output_filename self)),
                   fs\<lparr>output_csv := Some (OUT_COLUMNS # out)\<rparr>)"
          by (simp add: generate_output_csv_def read_vpsdb_def write_csv_def write_csv_trace_def)
        with JArray Some rows show ?thesis by blast
      qed
    qed
  qed
qed

lemma generate_output_csv_success:
  assumes "generate_output_csv self fs = (Inr p, fs')"
  shows "\<exists>trows vpsdb out.
           read_template_rows (Slash (data_dir self) ''puplookup.csv'') (puplookup_csv fs)
             = Inr trows
         \<and> list_all (\<lambda>t. length t = 17) trows
         \<and> vpsdb_json fs = Some (JArray vpsdb)
         \<and> generate_rows trows (build_indexes vpsdb) (build_master_map vpsdb) = Inr out
         \<and> fs' = fs\<lparr>output_csv := Some out\<rparr>"
proof -
  let ?p = "Slash (data_dir self) ''puplookup.csv''"
  from assms obtain trows
    where t: "read_template_rows ?p (puplookup_csv fs) = Inr trows"
    by (auto simp: generate_output_csv_def Let_def split: sum.splits)
  with read_template_rows_cases [of "puplookup_csv fs" ?p]
  have l: "list_all (\<lambda>t. length t = 17) trows" by auto
  from assms t obtain vpsdb
    where v: "read_vpsdb (Slash (data_dir self) ''vpsdb.json'') (vpsdb_json fs) = Inr vpsdb"
    by (auto simp: generate_output_csv_def Let_def split: sum.splits)
  then have j: "vpsdb_json fs = Some (JArray vpsdb)"
    by (auto simp: read_vpsdb_def split: option.splits json_doc.splits)
  from assms t v obtain out
    where o: "generate_rows trows (build_indexes vpsdb) (build_master_map vpsdb) = Inr out"
      and f: "fs' = write_csv fs out"
    by (auto simp: generate_output_csv_def Let_def split: sum.splits)
  from f have "fs' = fs\<lparr>output_csv := Some out\<rparr>"
    by (simp add: write_csv_def write_csv_trace_def)
  with t l j o show ?thesis by blast
qed

text \<open>
  C1 (as amended). After every merge run that completes, the destination holds the fixed
  20-column header followed by all the enriched rows (none lost, none added), stably sorted
  by the key: for a row with a context the key is (name-prefix, minus creation timestamp,
  edition rank, table-file position), the name-prefix being the composed display name cut
  before its first \<^verbatim>\<open>" ("\<close>; for a row without a context it is (empty string, 0, 0, 9999), so
  such a row comes before every row whose name-prefix is not empty.
\<close>

theorem merge_output_order:
  assumes "generate_output_csv self fs = (Inr p, fs')"
  shows "\<exists>trows vpsdb data rows.
           read_template_rows (Slash (data_dir self) ''puplookup.csv'') (puplookup_csv fs)
             = Inr trows
         \<and> vpsdb_json fs = Some (JArray vpsdb)
         \<and> traverse (enrich (build_indexes vpsdb) (build_master_map vpsdb)) trows = Inr data
         \<and> output_csv fs' = Some (OUT_COLUMNS # rows)
         \<and> mset rows = mset data
         \<and> (\<forall>i<length trows. data ! i ! 17 = trows ! i ! 16)
         \<and> sorted (map (row_key (build_indexes vpsdb)) rows)
         \<and> (\<forall>k. filter (\<lambda>r. row_key (build_indexes vpsdb) r = k) rows
                  = filter (\<lambda>r. row_key (build_indexes vpsdb) r = k) data)
         \<and> (\<forall>r\<in>set rows. \<forall>ctx. build_indexes vpsdb (r ! 17) = Some ctx \<longrightarrow>
               (\<exists>n. is_name_prefix n (game_name ctx)
                    \<and> row_key (build_indexes vpsdb) r
                        = (n, - created_at ctx, (if edition ctx = [] then 0 else 1),
                           tf_index ctx)))
         \<and> (\<forall>r\<in>set rows. build_indexes vpsdb (r ! 17) = None \<longrightarrow>
               row_key (build_indexes vpsdb) r = ('''', 0, 0, 9999))
         \<and> (\<forall>i j. i < length rows \<and> j < length rows
                 \<and> build_indexes vpsdb (rows ! i ! 17) = None
                 \<and> (\<exists>ctx. build_indexes vpsdb (rows ! j ! 17) = Some ctx
                          \<and> split_head '' ('' (game_name ctx) \<noteq> [])
                 \<longrightarrow> i < j)"
proof -
  from generate_output_csv_success [OF assms] obtain trows vpsdb out
    where t: "read_template_rows (Slash (data_dir self) ''puplookup.csv'') (puplookup_csv fs)
                = Inr trows"
      and l: "list_all (\<lambda>t. length t = 17) trows"
      and j: "vpsdb_json fs = Some (JArray vpsdb)"
      and o: "generate_rows trows (build_indexes vpsdb) (build_master_map vpsdb) = Inr out"
      and f: "fs' = fs\<lparr>output_csv := Some out\<rparr>" by blast
  from generate_rows_order [OF l, of "build_indexes vpsdb" "build_master_map vpsdb"]
  obtain data rows where r:
    "traverse (enrich (build_indexes vpsdb) (build_master_map vpsdb)) trows = Inr data"
    "generate_rows trows (build_indexes vpsdb) (build_master_map vpsdb)
       = Inr (OUT_COLUMNS # rows)"
    "mset rows = mset data"
    "\<forall>i<length trows. data ! i ! 17 = trows ! i ! 16"
    "sorted (map (row_key (build_indexes vpsdb)) rows)"
    "\<forall>k. filter (\<lambda>r. row_key (build_indexes vpsdb) r = k) rows
           = filter (\<lambda>r. row_key (build_indexes vpsdb) r = k) data"
    "\<forall>r\<in>set rows. \<forall>ctx. build_indexes vpsdb (r ! 17) = Some ctx \<longrightarrow>
               (\<exists>n. is_name_prefix n (game_name ctx)
                    \<and> row_key (build_indexes vpsdb) r
                        = (n, - created_at ctx, (if edition ctx = [] then 0 else 1),
                           tf_index ctx))"
    "\<forall>r\<in>set rows. build_indexes vpsdb (r ! 17) = None \<longrightarrow>
               row_key (build_indexes vpsdb) r = ('''', 0, 0, 9999)"
    "\<forall>i j. i < length rows \<and> j < length rows
                 \<and> build_indexes vpsdb (rows ! i ! 17) = None
                 \<and> (\<exists>ctx. build_indexes vpsdb (rows ! j ! 17) = Some ctx
                          \<and> split_head '' ('' (game_name ctx) \<noteq> [])
                 \<longrightarrow> i < j"
    by blast
  from r(2) o have "out = OUT_COLUMNS # rows" by simp
  with f have w: "output_csv fs' = Some (OUT_COLUMNS # rows)" by simp
  from t j r(1) w r(3-9) show ?thesis by blast
qed

theorem merge_output_order_witness:
  "generate_output_csv service_example files_example
     = (Inr (Slash (Path ''output'') ''puplookup.csv''),
        files_example\<lparr>output_csv := Some [OUT_COLUMNS, out_unknown, out_ok]\<rparr>)
   \<and> (\<exists>data rows.
         output_csv (files_example\<lparr>output_csv := Some [OUT_COLUMNS, out_unknown, out_ok]\<rparr>)
           = Some (OUT_COLUMNS # rows)
       \<and> mset rows = mset data
       \<and> sorted (map (row_key (build_indexes vpsdb_example)) rows))"
proof -
  have g: "generate_output_csv service_example files_example
     = (Inr (Slash (Path ''output'') ''puplookup.csv''),
        files_example\<lparr>output_csv := Some [OUT_COLUMNS, out_unknown, out_ok]\<rparr>)" by code_simp
  have v: "vpsdb_json files_example = Some (JArray vpsdb_example)" by code_simp
  from merge_output_order [OF g] obtain vpsdb data rows where
    "vpsdb_json files_example = Some (JArray vpsdb)"
    "output_csv (files_example\<lparr>output_csv := Some [OUT_COLUMNS, out_unknown, out_ok]\<rparr>)
       = Some (OUT_COLUMNS # rows)"
    "mset rows = mset data" "sorted (map (row_key (build_indexes vpsdb)) rows)"
    by blast
  with g v show ?thesis by auto
qed

text \<open>
  C1 as stated fails: a row without a context does not sort last. With the data rows
  \<^const>\<open>row_ok\<close> (context present, name-prefix \<^verbatim>\<open>Game\<close>) and \<^const>\<open>row_unknown\<close> (no context)
  in this order in the lookup file, the row without a context is written first.
\<close>

theorem no_context_row_sorts_first:
  "generate_output_csv service_example
     \<lparr> puplookup_csv = Some [BASE_COLUMNS, row_ok, row_unknown],
       vpsdb_json = Some (JArray vpsdb_example), output_csv = None \<rparr>
   = (Inr (Slash (Path ''output'') ''puplookup.csv''),
      \<lparr> puplookup_csv = Some [BASE_COLUMNS, row_ok, row_unknown],
        vpsdb_json = Some (JArray vpsdb_example),
        output_csv = Some [OUT_COLUMNS, out_unknown, out_ok] \<rparr>)
   \<and> build_indexes vpsdb_example (out_unknown ! 17) = None
   \<and> build_indexes vpsdb_example (out_ok ! 17) \<noteq> None
   \<and> key (build_indexes vpsdb_example) out_unknown = Inr ('''', 0, 0, 9999)
   \<and> key (build_indexes vpsdb_example) out_ok = Inr (''Game'', - 100, 0, 0)"
  by code_simp

text \<open>
  C2. \<^verbatim>\<open>generate_output_csv\<close> raises \<^verbatim>\<open>DataValidationError\<close> exactly when the lookup file is
  absent or has no header row, or the metadata file is absent or holds a JSON document that
  is not an array. Whenever it raises, the files are as before, the destination included.
  \<^verbatim>\<open>_repair_template_row\<close> never raises, and a data row it drops leaves the reading of the
  other rows as it is.
\<close>

theorem fatal_failures:
  "((\<exists>msg. fst (generate_output_csv self fs) = Inl (DataValidationError msg))
      \<longleftrightarrow> (puplookup_csv fs = None \<or> no_header_row (puplookup_csv fs)
           \<or> vpsdb_json fs = None \<or> vpsdb_json fs = Some JOther))
   \<and> ((\<exists>e. fst (generate_output_csv self fs) = Inl e) \<longrightarrow> snd (generate_output_csv self fs) = fs)
   \<and> (\<exists>r. repair_template_row row = Inr r)
   \<and> (header \<noteq> [] \<and> repair_template_row row = Inr None \<longrightarrow>
        read_template_rows p (Some (header # before @ row # after))
        = read_template_rows p (Some (header # before @ after)))"
proof (intro conjI)
  show "(\<exists>msg. fst (generate_output_csv self fs) = Inl (DataValidationError msg))
      \<longleftrightarrow> (puplookup_csv fs = None \<or> no_header_row (puplookup_csv fs)
           \<or> vpsdb_json fs = None \<or> vpsdb_json fs = Some JOther)"
    using generate_output_csv_cases [of fs self] by (auto simp: no_header_row_def)
  show "(\<exists>e. fst (generate_output_csv self fs) = Inl e) \<longrightarrow> snd (generate_output_csv self fs) = fs"
    using generate_output_csv_cases [of fs self] by auto
  show "\<exists>r. repair_template_row row = Inr r" by (rule repair_never_raises)
  show "header \<noteq> [] \<and> repair_template_row row = Inr None \<longrightarrow>
        read_template_rows p (Some (header # before @ row # after))
        = read_template_rows p (Some (header # before @ after))"
    by (simp add: read_template_rows_def repair_all_skip)
qed

theorem fatal_failures_witness:
  "puplookup_csv files_no_template = None
   \<and> generate_output_csv service_example files_no_template
     = (Inl (DataValidationError (Missing_template_CSV (Slash (Path ''data'') ''puplookup.csv''))),
        files_no_template)
   \<and> BASE_COLUMNS \<noteq> [] \<and> repair_template_row row_padded_id = Inr (Some row_padded_id)
   \<and> repair_template_row row_short = Inr None
   \<and> read_template_rows (Path ''p'') (Some (BASE_COLUMNS # [row_ok] @ row_short # [row_unknown]))
     = Inr [row_ok, row_unknown]"
proof -
  have a: "puplookup_csv files_no_template = None" by code_simp
  have g: "generate_output_csv service_example files_no_template
     = (Inl (DataValidationError (Missing_template_CSV (Slash (Path ''data'') ''puplookup.csv''))),
        files_no_template)" by code_simp
  have h: "BASE_COLUMNS \<noteq> []" by code_simp
  have n: "repair_template_row row_short = Inr None" by code_simp
  have k: "repair_template_row row_padded_id = Inr (Some row_padded_id)" by code_simp
  have r: "read_template_rows (Path ''p'') (Some (BASE_COLUMNS # [row_ok] @ [row_unknown]))
     = Inr [row_ok, row_unknown]" by code_simp
  from fatal_failures [of service_example files_no_template row_short BASE_COLUMNS "Path ''p''"
         "[row_ok]" "[row_unknown]"] a g h n k r
  show ?thesis by simp
qed

section \<open>Writing the output\<close>

lemma atomic_write_bytes_atomic:
  "\<forall>s\<in>set (atomic_write_bytes_trace store p data). s p = store p \<or> s p = Some data"
  by (simp add: atomic_write_bytes_trace_def Let_def)

text \<open>
  C3. \<^verbatim>\<open>_write_csv\<close> opens the destination itself for writing, so a run over an existing
  output passes through a state in which the destination is empty: neither the previous
  file nor the new one. (\<^verbatim>\<open>atomic_write_bytes\<close>, which the sync service uses for its
  downloads, never shows such a state: \<open>atomic_write_bytes_atomic\<close>.)
\<close>

theorem write_csv_not_atomic:
  "generate_output_csv service_example files_example
     = (Inr (Slash (Path ''output'') ''puplookup.csv''),
        files_example\<lparr>output_csv := Some [OUT_COLUMNS, out_unknown, out_ok]\<rparr>)
   \<and> map output_csv (write_csv_trace files_example [OUT_COLUMNS, out_unknown, out_ok])
     = [Some [], Some [OUT_COLUMNS, out_unknown, out_ok]]
   \<and> output_csv files_example = Some [OUT_COLUMNS, out_unknown]
   \<and> (Some [] :: string list list option) \<noteq> Some [OUT_COLUMNS, out_unknown]
   \<and> (Some [] :: string list list option) \<noteq> Some [OUT_COLUMNS, out_unknown, out_ok]"
  by code_simp

end
